theory Spec2Isabelle
  imports Main "HOL-Library.Word"
begin

unbundle bit_operations_syntax

section \<open>AtariSIO2SD: the SIO protocol engine and the virtual disk backend\<close>

text \<open>
  A shallow embedding of \<^verbatim>\<open>AtariSIO2SD.ino\<close> for the AVR targets the sketch is written
  for: \<^verbatim>\<open>byte\<close> is 8 bits, \<^verbatim>\<open>int\<close> and \<^verbatim>\<open>unsigned int\<close> are 16 bits,
  \<^verbatim>\<open>unsigned long\<close> is 32 bits. The \<^verbatim>\<open>PRINT\<close> logging macros and \<^verbatim>\<open>delay\<close> have no
  effect on the values modelled here and are left out. The timer interrupt that drives
  the display and the buttons is not modelled: the two selector digits and the activity
  counter are fields of the state, constant while one command is handled.

  A function whose source can wait for the outside world returns an \<open>option\<close>:
  \<open>None\<close> says that it has not returned on the input given.
\<close>

type_synonym byte = "8 word"
type_synonym c_int = "16 word"
type_synonym c_uint = "16 word"
type_synonym c_ulong = "32 word"

subsection \<open>Storage driver and serial port (external collaborators)\<close>

text \<open>
  Modelled from the spec: the physical storage driver (open, seek, read and write on a
  file found by path) is not part of the sources. A card either initialises or not, may
  hold an \<^verbatim>\<open>ATARI\<close> directory whose entries (files) are listed in scan order, and each
  entry has its bytes and a flag telling whether it can be opened for writing.
\<close>

record sdfile =
  contents :: "byte list"
  readonly :: bool

record sdcard =
  begin_ok :: bool
  atari :: "(string \<times> sdfile) list option"

text \<open>An open \<^verbatim>\<open>File\<close> object: its name, its position and its open mode.\<close>

record File =
  fname :: string
  fpos :: nat
  fwrite :: bool

datatype level = LOW | HIGH

text \<open>
  The globals of the sketch, together with the world it talks to: the card, the results
  that successive \<^verbatim>\<open>digitalRead(PIN_SIOCOMMAND)\<close> calls will return, the results that
  successive \<^verbatim>\<open>SIO.read()\<close> calls will return (a negative value when nothing has
  arrived), and the bytes written with \<^verbatim>\<open>SIO.write\<close> so far.
\<close>

record state =
  didinitsd :: bool
  diskfile :: "File option"
  disksize :: c_uint
  digit0value :: byte
  digit1value :: byte
  activitylight :: c_int
  sd :: sdcard
  cmdline :: "level list"
  sio_rx :: "int list"
  sio_tx :: "byte list"

definition SIO_write :: "byte \<Rightarrow> state \<Rightarrow> state" where
  "SIO_write b st = st\<lparr>sio_tx := sio_tx st @ [b]\<rparr>"

definition SIO_write_buf :: "byte list \<Rightarrow> state \<Rightarrow> state" where
  "SIO_write_buf bs st = st\<lparr>sio_tx := sio_tx st @ bs\<rparr>"

text \<open>\<^verbatim>\<open>SIO.read()\<close>: the next result, or -1 for good once the line has gone silent.\<close>

fun SIO_read :: "int list \<Rightarrow> int \<times> int list" where
  "SIO_read [] = (- 1, [])"
| "SIO_read (r # rs) = (r, rs)"

subsection \<open>Checksum and framed transfer\<close>

text \<open>
  One round of the loop body shared by \<^verbatim>\<open>sendwithchecksum\<close>, \<^verbatim>\<open>receivewithchecksum\<close>
  and the command check of \<^verbatim>\<open>handle_sio\<close>:
  \<^verbatim>\<open>sum += data[i]; if (sum>=256) { sum = (sum - 256) + 1; }\<close> on a 16-bit signed sum.
\<close>

definition add_carry :: "c_int \<Rightarrow> byte \<Rightarrow> c_int" where
  "add_carry s b = (let s1 = s + ucast b in if 256 \<le>s s1 then (s1 - 256) + 1 else s1)"

fun sum_loop :: "c_int \<Rightarrow> byte list \<Rightarrow> c_int" where
  "sum_loop s [] = s"
| "sum_loop s (b # bs) = sum_loop (add_carry s b) bs"

text \<open>
  \<^verbatim>\<open>sendwithchecksum(data, len)\<close>: the span is the list of its \<^verbatim>\<open>len\<close> bytes.
  \<^verbatim>\<open>SIO.write(sum)\<close> sends the low byte of the sum.
\<close>

definition sendwithchecksum :: "byte list \<Rightarrow> state \<Rightarrow> state" where
  "sendwithchecksum data st = SIO_write (ucast (sum_loop 0 data)) (SIO_write_buf data st)"

text \<open>
  \<^verbatim>\<open>receivebyte\<close> polls until a read is non-negative. When no byte ever arrives the
  loop never ends: the result is \<open>None\<close>.
\<close>

fun receivebyte :: "int list \<Rightarrow> (byte \<times> int list) option" where
  "receivebyte [] = None"
| "receivebyte (d # rs) = (if d < 0 then receivebyte rs else Some (word_of_int d, rs))"

fun receive_loop :: "nat \<Rightarrow> byte list \<Rightarrow> c_int \<Rightarrow> int list \<Rightarrow> (byte list \<times> c_int \<times> int list) option" where
  "receive_loop 0 data s rs = Some (data, s, rs)"
| "receive_loop (Suc n) data s rs =
     (case receivebyte rs of
        None \<Rightarrow> None
      | Some (b, rs') \<Rightarrow> receive_loop n (data @ [b]) (add_carry s b) rs')"

text \<open>
  \<^verbatim>\<open>receivewithchecksum(data, len)\<close> returns the bytes stored in \<^verbatim>\<open>data\<close>, the result
  \<^verbatim>\<open>check==sum\<close> and the state with the reads consumed.
\<close>

definition receivewithchecksum :: "int \<Rightarrow> state \<Rightarrow> (byte list \<times> bool \<times> state) option" where
  "receivewithchecksum len st =
     (case receive_loop (nat len) [] 0 (sio_rx st) of
        None \<Rightarrow> None
      | Some (data, s, rs) \<Rightarrow>
          (case receivebyte rs of
             None \<Rightarrow> None
           | Some (check, rs') \<Rightarrow> Some (data, ucast check = s, st\<lparr>sio_rx := rs'\<rparr>)))"

subsection \<open>Disk selector\<close>

text \<open>
  The state after \<^verbatim>\<open>setup()\<close>: \<^verbatim>\<open>initdiskselector\<close> reads the saved selector value
  from the EEPROM, replaces a value above 99 by 0 and splits it into the two digits; the
  other globals have their initial values.
\<close>

definition boot :: "byte \<Rightarrow> sdcard \<Rightarrow> level list \<Rightarrow> int list \<Rightarrow> state" where
  "boot eeprom c pins rs =
     (let s = (if eeprom > 99 then 0 else eeprom)
      in \<lparr>didinitsd = False, diskfile = None, disksize = 0,
          digit0value = s mod 10, digit1value = s div 10, activitylight = 0,
          sd = c, cmdline = pins, sio_rx = rs, sio_tx = []\<rparr>)"

definition getdiskselectorvalue :: "state \<Rightarrow> c_int" where
  "getdiskselectorvalue st = ucast (digit0value st) + ucast (digit1value st) * 10"

definition setactivitylight :: "state \<Rightarrow> state" where
  "setactivitylight st = st\<lparr>activitylight := 10\<rparr>"

subsection \<open>Storage driver operations\<close>

text \<open>
  Modelled from the spec: the driver's operations, which the sources only call.
  \<^verbatim>\<open>SD.open\<close> resolves a path below \<^verbatim>\<open>ATARI/\<close>; opening for writing fails on a
  read-only entry and otherwise positions the handle at the end of the file. A seek
  succeeds up to the end of the file, a read returns the bytes that are there (at most
  the number asked for), a write puts the bytes at the handle's position (the file grows
  when they reach past its end), and a write through a read-only handle writes nothing
  and returns 0.
\<close>

definition SD_begin :: "sdcard \<Rightarrow> bool" where
  "SD_begin c = begin_ok c"

definition SD_open :: "sdcard \<Rightarrow> string \<Rightarrow> bool \<Rightarrow> File option" where
  "SD_open c path wr =
     (case atari c of
        None \<Rightarrow> None
      | Some es \<Rightarrow>
          if take 6 path = ''ATARI/'' then
            (case map_of es (drop 6 path) of
               None \<Rightarrow> None
             | Some f \<Rightarrow>
                 if wr then
                   (if readonly f then None
                    else Some \<lparr>fname = drop 6 path, fpos = length (contents f), fwrite = True\<rparr>)
                 else Some \<lparr>fname = drop 6 path, fpos = 0, fwrite = False\<rparr>)
          else None)"

definition file_bytes :: "sdcard \<Rightarrow> File \<Rightarrow> byte list" where
  "file_bytes c f =
     (case atari c of
        None \<Rightarrow> []
      | Some es \<Rightarrow> (case map_of es (fname f) of None \<Rightarrow> [] | Some x \<Rightarrow> contents x))"

definition file_seek :: "sdcard \<Rightarrow> File \<Rightarrow> c_ulong \<Rightarrow> File option" where
  "file_seek c f pos =
     (if unat pos \<le> length (file_bytes c f) then Some (f\<lparr>fpos := unat pos\<rparr>) else None)"

definition file_read :: "sdcard \<Rightarrow> File \<Rightarrow> nat \<Rightarrow> byte list \<times> File" where
  "file_read c f n =
     (let got = take n (drop (fpos f) (file_bytes c f))
      in (got, f\<lparr>fpos := fpos f + length got\<rparr>))"

fun put_contents :: "string \<Rightarrow> byte list \<Rightarrow> (string \<times> sdfile) list \<Rightarrow> (string \<times> sdfile) list" where
  "put_contents n bs [] = []"
| "put_contents n bs (e # es) =
     (if fst e = n then (fst e, (snd e)\<lparr>contents := bs\<rparr>) # es else e # put_contents n bs es)"

definition file_write :: "sdcard \<Rightarrow> File \<Rightarrow> byte list \<Rightarrow> nat \<times> File \<times> sdcard" where
  "file_write c f data =
     (if \<not> fwrite f then (0, f, c)
      else
        (let old = file_bytes c f;
             new = take (fpos f) old @ data @ drop (fpos f + length data) old
         in (length data, f\<lparr>fpos := fpos f + length data\<rparr>,
             c\<lparr>atari := map_option (put_contents (fname f) new) (atari c)\<rparr>)))"

subsection \<open>Disk file handling\<close>

text \<open>
  The character \<^verbatim>\<open>n[i]\<close> of a file name as the \<^verbatim>\<open>int\<close> the comparisons see
  (\<^verbatim>\<open>char\<close> is signed on AVR); the terminating NUL follows the last character.
\<close>

definition schar :: "char \<Rightarrow> int" where
  "schar c = (let v = of_char c in if v < 128 then v else v - 256)"

definition cstr_at :: "string \<Rightarrow> nat \<Rightarrow> int" where
  "cstr_at n i = (if i < length n then schar (n ! i) else 0)"

definition isrequesteddiskfile :: "string \<Rightarrow> byte \<Rightarrow> c_int \<Rightarrow> bool" where
  "isrequesteddiskfile n drive index =
     (if cstr_at n 0 \<ge> schar CHR ''0'' \<and> cstr_at n 0 \<le> schar CHR ''9''
         \<and> cstr_at n 1 \<ge> schar CHR ''0'' \<and> cstr_at n 1 \<le> schar CHR ''9''
         \<and> ((cstr_at n 0 - schar CHR ''0'') * 10 + cstr_at n 1 - schar CHR ''0'') = sint index
      then
        (if cstr_at n 2 = schar CHR ''_'' \<and> drive = 0 then True
         else if cstr_at n 2 \<ge> schar CHR ''B'' \<and> cstr_at n 2 \<le> schar CHR ''H''
                 \<and> cstr_at n 2 - schar CHR ''A'' = uint drive then True
         else False)
      else False)"

text \<open>
  The directory scan of \<^verbatim>\<open>opendiskfile\<close>: entries are taken in order until one matches,
  whose name is appended to \<^verbatim>\<open>"ATARI/"\<close>; running out of entries ends the search.
\<close>

fun scan_root :: "(string \<times> sdfile) list \<Rightarrow> byte \<Rightarrow> c_int \<Rightarrow> string option" where
  "scan_root [] drive index = None"
| "scan_root (entry # es) drive index =
     (if isrequesteddiskfile (fst entry) drive index then Some (''ATARI/'' @ fst entry)
      else scan_root es drive index)"

text \<open>
  \<^verbatim>\<open>paragraphs = header[6]; paragraphs = (paragraphs<<8) | header[3];
  paragraphs = (paragraphs<<8) | header[2];\<close> on an \<^verbatim>\<open>unsigned long\<close>.
\<close>

definition header_paragraphs :: "byte list \<Rightarrow> c_ulong" where
  "header_paragraphs header =
     (let p0 = ucast (header ! 6);
          p1 = push_bit 8 p0 OR ucast (header ! 3);
          p2 = push_bit 8 p1 OR ucast (header ! 2)
      in p2)"

text \<open>
  The header checks of \<^verbatim>\<open>opendiskfile\<close>, from the result of the 16-byte read on:
  \<open>None\<close> where the source closes the file and returns, otherwise the value assigned
  to \<^verbatim>\<open>disksize\<close>.
\<close>

definition check_header :: "byte list \<Rightarrow> c_uint option" where
  "check_header header =
     (if length header \<noteq> 16 then None
      else if header ! 0 \<noteq> 0x96 \<or> header ! 1 \<noteq> 0x02 then None
      else if header ! 5 \<noteq> 0 \<or> header ! 4 \<noteq> 128 then None
      else
        (let paragraphs = header_paragraphs header
         in if paragraphs < 8 \<or> paragraphs > 0x70000 then None
            else Some (ucast (drop_bit 3 paragraphs))))"

text \<open>
  \<^verbatim>\<open>SD.open(fullname, FILE_WRITE)\<close> followed by \<^verbatim>\<open>seek(0)\<close>, or else
  \<^verbatim>\<open>SD.open(fullname, FILE_READ)\<close>.
\<close>

definition open_rw_or_ro :: "sdcard \<Rightarrow> string \<Rightarrow> File option" where
  "open_rw_or_ro c fullname =
     (case SD_open c fullname True of
        Some f \<Rightarrow> Some (case file_seek c f 0 of Some f' \<Rightarrow> f' | None \<Rightarrow> f)
      | None \<Rightarrow> SD_open c fullname False)"

text \<open>
  \<^verbatim>\<open>opendiskfile(drive, index)\<close>. The source assigns \<^verbatim>\<open>diskfile\<close> when the file is
  opened and closes it again on every failing check; here it is assigned once the checks
  have passed, which gives the same state on return.
\<close>

definition opendiskfile :: "byte \<Rightarrow> c_int \<Rightarrow> state \<Rightarrow> state" where
  "opendiskfile drive index st =
     (if (case diskfile st of None \<Rightarrow> False | Some f \<Rightarrow> isrequesteddiskfile (fname f) drive index)
      then st
      else
        (let st1 = st\<lparr>diskfile := None\<rparr>
         in if \<not> didinitsd st1 \<and> \<not> SD_begin (sd st1) then st1
            else
              (let st2 = st1\<lparr>didinitsd := True\<rparr>
               in case atari (sd st2) of
                    None \<Rightarrow> st2
                  | Some entries \<Rightarrow>
                      (case scan_root entries drive index of
                         None \<Rightarrow> st2
                       | Some fullname \<Rightarrow>
                           (case open_rw_or_ro (sd st2) fullname of
                              None \<Rightarrow> st2
                            | Some f \<Rightarrow>
                                (let (header, f1) = file_read (sd st2) f 16
                                 in case check_header header of
                                      None \<Rightarrow> st2
                                    | Some n \<Rightarrow> st2\<lparr>diskfile := Some f1, disksize := n\<rparr>))))))"

text \<open>
  \<^verbatim>\<open>readsector(sector, data)\<close> returns its result, the bytes the driver has stored at the
  start of \<^verbatim>\<open>data\<close> (none when no read was made) and the new state;
  \<^verbatim>\<open>writesector(sector, data)\<close> writes the 128 bytes of \<^verbatim>\<open>data\<close>.
\<close>

definition readsector :: "c_uint \<Rightarrow> state \<Rightarrow> bool \<times> byte list \<times> state" where
  "readsector sector st =
     (case diskfile st of
        None \<Rightarrow> (False, [], st)
      | Some f \<Rightarrow>
          if sector \<ge> disksize st then (False, [], st)
          else
            (case file_seek (sd st) f (16 + ucast sector * 128) of
               None \<Rightarrow> (False, [], st)
             | Some f1 \<Rightarrow>
                 (let (got, f2) = file_read (sd st) f1 128
                  in (length got = 128, got, st\<lparr>diskfile := Some f2\<rparr>))))"

definition writesector :: "c_uint \<Rightarrow> byte list \<Rightarrow> state \<Rightarrow> bool \<times> state" where
  "writesector sector data st =
     (case diskfile st of
        None \<Rightarrow> (False, st)
      | Some f \<Rightarrow>
          if sector \<ge> disksize st then (False, st)
          else
            (case file_seek (sd st) f (16 + ucast sector * 128) of
               None \<Rightarrow> (False, st)
             | Some f1 \<Rightarrow>
                 (let (n, f2, c) = file_write (sd st) f1 (take 128 data)
                  in (n = 128, st\<lparr>diskfile := Some f2, sd := c\<rparr>))))"

definition diskavailable :: "state \<Rightarrow> bool" where
  "diskavailable st = (case diskfile st of Some f \<Rightarrow> True | None \<Rightarrow> False)"

subsection \<open>SIO protocol\<close>

text \<open>The \<^verbatim>\<open>status\<close> array that \<^verbatim>\<open>handlecommand_status\<close> fills in.\<close>

definition status_record :: "state \<Rightarrow> byte list" where
  "status_record st =
     (if diskavailable st
      then [if disksize st > 720 then 0x10 OR 0x80 else 0x10, 0x00, 0xe0, 0x00]
      else [0x00, 0x80, 0xe0, 0x00])"

definition handlecommand_status :: "state \<Rightarrow> state" where
  "handlecommand_status st = sendwithchecksum (status_record st) (SIO_write (of_char CHR ''C'') st)"

definition handlecommand_read :: "c_uint \<Rightarrow> state \<Rightarrow> state" where
  "handlecommand_read sector st =
     (let (ok, data, st1) = readsector sector (setactivitylight st)
      in if \<not> ok then SIO_write (of_char CHR ''E'') st1
         else sendwithchecksum data (SIO_write (of_char CHR ''C'') st1))"

definition handlecommand_write :: "c_uint \<Rightarrow> state \<Rightarrow> state option" where
  "handlecommand_write sector st =
     (case receivewithchecksum 128 st of
        None \<Rightarrow> None
      | Some (data, ok, st1) \<Rightarrow>
          if \<not> ok then Some (SIO_write (of_char CHR ''E'') st1)
          else
            (let st2 = SIO_write (of_char CHR ''A'') st1;
                 (wok, st3) = writesector sector data st2
             in if \<not> wok then Some (SIO_write (of_char CHR ''E'') st3)
                else Some (SIO_write (of_char CHR ''C'') st3)))"

text \<open>
  The three polling loops of \<^verbatim>\<open>handle_sio\<close>. Each round samples the command line; a
  loop that is still waiting when the line's samples are used up has not returned:
  \<open>None\<close>.
\<close>

fun wait_command_low :: "level list \<Rightarrow> int list \<Rightarrow> (level list \<times> int list) option" where
  "wait_command_low [] rs = None"
| "wait_command_low (l # ls) rs =
     (if l \<noteq> LOW then wait_command_low ls (snd (SIO_read rs)) else Some (ls, rs))"

fun read_command :: "byte list \<Rightarrow> level list \<Rightarrow> int list \<Rightarrow> (byte list \<times> level list \<times> int list) option" where
  "read_command command [] rs = (if length command < 5 then None else Some (command, [], rs))"
| "read_command command (l # ls) rs =
     (if length command < 5 then
        (if l = LOW then
           (let (r, rs') = SIO_read rs
            in read_command (if r \<ge> 0 then command @ [word_of_int r] else command) ls rs')
         else Some (command, ls, rs))
      else Some (command, l # ls, rs))"

fun wait_command_high :: "c_int \<Rightarrow> level list \<Rightarrow> int list \<Rightarrow> (c_int \<times> level list \<times> int list) option" where
  "wait_command_high commandlength [] rs = None"
| "wait_command_high commandlength (l # ls) rs =
     (if l \<noteq> HIGH then
        (let (r, rs') = SIO_read rs
         in wait_command_high (if r \<ge> 0 then commandlength + 1 else commandlength) ls rs')
      else Some (commandlength, ls, rs))"

text \<open>\<^verbatim>\<open>((unsigned int)command[2]) + (((unsigned int)command[3])<<8) - 1\<close>.\<close>

definition decode_sector :: "byte \<Rightarrow> byte \<Rightarrow> c_uint" where
  "decode_sector aux1 aux2 = ucast aux1 + push_bit 8 (ucast aux2) - 1"

text \<open>The \<^verbatim>\<open>switch (command[1])\<close> of \<^verbatim>\<open>handle_sio\<close>.\<close>

definition dispatch_command :: "byte list \<Rightarrow> state \<Rightarrow> state option" where
  "dispatch_command command st =
     (if command ! 1 = 0x53 then
        (let st1 = SIO_write (of_char CHR ''A'') st;
             drive = ucast (command ! 0) - 0x31 :: c_uint;
             st2 = opendiskfile (ucast drive) (getdiskselectorvalue st1) st1
         in Some (handlecommand_status st2))
      else if command ! 1 = 0x52 then
        (let st1 = SIO_write (of_char CHR ''A'') st;
             drive = ucast (command ! 0) - 0x31 :: c_uint;
             sector = decode_sector (command ! 2) (command ! 3);
             st2 = opendiskfile (ucast drive) (getdiskselectorvalue st1) st1
         in Some (handlecommand_read sector st2))
      else if command ! 1 = 0x57 then
        (let st1 = SIO_write (of_char CHR ''A'') st;
             drive = ucast (command ! 0) - 0x31 :: c_uint;
             sector = decode_sector (command ! 2) (command ! 3);
             st2 = opendiskfile (ucast drive) (getdiskselectorvalue st1) st1
         in handlecommand_write sector st2)
      else Some (SIO_write (of_char CHR ''N'') st))"

text \<open>
  The frame capture of \<^verbatim>\<open>handle_sio\<close>: the bytes stored in \<^verbatim>\<open>command\<close> (their number
  is \<^verbatim>\<open>commandlength\<close> when the second loop ends) and the state with the consumed input
  removed. A frame of five bytes is followed by the wait for the line to go high.
\<close>

definition capture_frame :: "state \<Rightarrow> (byte list \<times> state) option" where
  "capture_frame st =
     (case wait_command_low (cmdline st) (sio_rx st) of
        None \<Rightarrow> None
      | Some (ls1, rs1) \<Rightarrow>
          (case read_command [] ls1 rs1 of
             None \<Rightarrow> None
           | Some (command, ls2, rs2) \<Rightarrow>
               if length command \<le> 0 then Some (command, st\<lparr>cmdline := ls2, sio_rx := rs2\<rparr>)
               else if length command < 5 then Some (command, st\<lparr>cmdline := ls2, sio_rx := rs2\<rparr>)
               else
                 (case wait_command_high 5 ls2 rs2 of
                    None \<Rightarrow> None
                  | Some (commandlength, ls3, rs3) \<Rightarrow>
                      Some (command, st\<lparr>cmdline := ls3, sio_rx := rs3\<rparr>))))"

definition handle_sio :: "state \<Rightarrow> state option" where
  "handle_sio st =
     (case capture_frame st of
        None \<Rightarrow> None
      | Some (command, st1) \<Rightarrow>
          if length command \<le> 0 then Some st1
          else if length command < 5 then Some st1
          else if sum_loop 0 (take 4 command) \<noteq> ucast (command ! 4) then Some st1
          else if command ! 0 < 0x31 \<or> command ! 0 > 0x33 then Some st1
          else dispatch_command command st1)"

text \<open>\<^verbatim>\<open>loop()\<close> called \<open>n\<close> times in a row, as the runtime does without end.\<close>

fun run_loop :: "nat \<Rightarrow> state \<Rightarrow> state option" where
  "run_loop 0 st = Some st"
| "run_loop (Suc n) st = (case handle_sio st of None \<Rightarrow> None | Some st' \<Rightarrow> run_loop n st')"

subsection \<open>The spec's formulations\<close>

text \<open>
  The checksum in the spec's words: a running sum over the byte values in which a sum that
  reaches or exceeds 256 is replaced by \<open>(sum - 256) + 1\<close> before the next byte is added.
\<close>

definition spec_carry :: "int \<Rightarrow> int \<Rightarrow> int" where
  "spec_carry s b = (if s + b \<ge> 256 then (s + b - 256) + 1 else s + b)"

definition spec_checksum :: "byte list \<Rightarrow> int" where
  "spec_checksum bs = foldl spec_carry 0 (map uint bs)"

text \<open>
  The header in the spec's words: the paragraph count is
  \<open>(byte6<<16)|(byte3<<8)|byte2\<close>; a header is valid when it has 16 bytes, the magic
  bytes 0x96 and 0x02, the sector-size bytes 128 and 0, and a paragraph count in
  \<open>[8, 0x70000]\<close>.
\<close>

definition spec_paragraphs :: "byte list \<Rightarrow> int" where
  "spec_paragraphs h = (push_bit 16 (uint (h ! 6)) OR push_bit 8 (uint (h ! 3))) OR uint (h ! 2)"

definition spec_header_valid :: "byte list \<Rightarrow> bool" where
  "spec_header_valid h =
     (length h = 16 \<and> h ! 0 = 0x96 \<and> h ! 1 = 0x02 \<and> h ! 4 = 128 \<and> h ! 5 = 0
      \<and> 8 \<le> spec_paragraphs h \<and> spec_paragraphs h \<le> 0x70000)"

text \<open>
  The naming convention in the spec's words: the two ASCII decimal digits of the index
  (00 to 99), then the drive character, \<open>_\<close> for drive 0 and a letter \<open>B\<close> to \<open>H\<close> for
  drive (letter - \<open>A\<close>); the rest of the name is free.
\<close>

definition spec_index_digits :: "int \<Rightarrow> string" where
  "spec_index_digits i = [char_of (48 + i div 10), char_of (48 + i mod 10)]"

definition spec_drive_of :: "char \<Rightarrow> int option" where
  "spec_drive_of c =
     (if c = CHR ''_'' then Some 0
      else if of_char CHR ''B'' \<le> (of_char c :: int) \<and> (of_char c :: int) \<le> of_char CHR ''H''
      then Some (of_char c - of_char CHR ''A'')
      else None)"

definition spec_name_matches :: "string \<Rightarrow> int \<Rightarrow> int \<Rightarrow> bool" where
  "spec_name_matches n drive index =
     (0 \<le> index \<and> index \<le> 99 \<and> 3 \<le> length n \<and> take 2 n = spec_index_digits index
      \<and> spec_drive_of (n ! 2) = Some drive)"

text \<open>
  The frame reader in the spec's words: bytes that arrive while attention is deasserted
  are discarded; while it is asserted the bytes that arrive are captured, up to 5; once 5
  are captured, further bytes are consumed and discarded until attention is deasserted.
  The serial port is polled once for each sample of the line, so for a line sampled
  \<open>idle\<close> times deasserted before it is found asserted, and then \<open>asserted\<close> times
  asserted before it is found deasserted again, the frame is made of the first five bytes
  among the poll results \<open>idle\<close>, ..., \<open>idle + asserted - 1\<close> (a negative result is a
  poll that found nothing).
\<close>

definition spec_frame :: "nat \<Rightarrow> nat \<Rightarrow> int list \<Rightarrow> byte list" where
  "spec_frame idle asserted rs =
     take 5 (map word_of_int (filter (\<lambda>r. 0 \<le> r) (take asserted (drop idle rs))))"

text \<open>
  A frame is answered when it is complete (5 bytes), its fifth byte is the checksum of the
  first four, and its device-id is one of the three values 0x31, 0x32, 0x33.
\<close>

definition spec_well_formed :: "byte list \<Rightarrow> bool" where
  "spec_well_formed c =
     (length c = 5 \<and> uint (c ! 4) = spec_checksum (take 4 c)
      \<and> 0x31 \<le> uint (c ! 0) \<and> uint (c ! 0) \<le> 0x33)"

text \<open>
  The invariant of the backend: an open image has a valid header, and \<^verbatim>\<open>disksize\<close> is
  its paragraph count shifted right by 3.
\<close>

definition backend_inv :: "state \<Rightarrow> bool" where
  "backend_inv st =
     (case diskfile st of
        None \<Rightarrow> True
      | Some f \<Rightarrow>
          spec_header_valid (take 16 (file_bytes (sd st) f))
          \<and> uint (disksize st) = spec_paragraphs (take 16 (file_bytes (sd st) f)) div 8)"

text \<open>The state in which \<^verbatim>\<open>opendiskfile\<close> gives up after the card has been initialised.\<close>

definition closed_state :: "state \<Rightarrow> state" where
  "closed_state st = st\<lparr>diskfile := None, didinitsd := True\<rparr>"

subsection \<open>Example worlds\<close>

text \<open>
  Cards: none at all; one with two small writable images of 2 sectors for index 7 (drives
  0 and 1) and a read-only image for index 12 whose header announces 1040 sectors but
  whose file ends after the header; one whose only image has sector size 256.
\<close>

definition no_card :: sdcard where
  "no_card = \<lparr>begin_ok = False, atari = None\<rparr>"

definition image_header :: "byte \<Rightarrow> byte \<Rightarrow> byte list" where
  "image_header lo hi = [0x96, 0x02, lo, hi, 0x80, 0x00, 0x00, 0, 0, 0, 0, 0, 0, 0, 0, 0]"

definition small_image :: "byte \<Rightarrow> sdfile" where
  "small_image fill =
     \<lparr>contents = image_header 0x10 0x00 @ replicate 128 fill @ replicate 128 (fill + 1),
      readonly = False\<rparr>"

definition big_image :: sdfile where
  "big_image = \<lparr>contents = image_header 0x80 0x20, readonly = True\<rparr>"

definition example_card :: sdcard where
  "example_card =
     \<lparr>begin_ok = True,
      atari = Some [(''README.TXT'', \<lparr>contents = [], readonly = False\<rparr>),
                    (''07_foo.dat'', small_image 0xAA),
                    (''07Bbar.dat'', small_image 0x55),
                    (''12_BIG.ATR'', big_image)]\<rparr>"

definition bad_card :: sdcard where
  "bad_card =
     \<lparr>begin_ok = True,
      atari = Some [(''07_BAD.ATR'',
         \<lparr>contents = [0x96, 0x02, 0x10, 0x00, 0x00, 0x01, 0x00, 0, 0, 0, 0, 0, 0, 0, 0, 0], readonly = False\<rparr>)]\<rparr>"

text \<open>States with an image open.\<close>

definition small_world :: state where
  "small_world = opendiskfile 0 7 (boot 7 example_card [] [])"

definition big_world :: state where
  "big_world = opendiskfile 0 12 (boot 12 example_card [] [])"

text \<open>
  Bus traces, from the start-up state with selector value 7: the samples of the command
  line and the results of the serial reads. A well-formed frame needs the line low for
  the sample that ends the wait and for five more, one before each byte.
\<close>

definition read_frame_world :: state where
  "read_frame_world =
     boot 7 no_card [LOW, LOW, LOW, LOW, LOW, LOW, HIGH] [0x31, 0x52, 0, 1, 0x84]"

definition sector_zero_world :: state where
  "sector_zero_world =
     boot 7 example_card [LOW, LOW, LOW, LOW, LOW, LOW, HIGH] [0x31, 0x52, 0, 0, 0x83]"

definition status_frame_world :: "sdcard \<Rightarrow> state" where
  "status_frame_world c =
     boot 7 c [HIGH, LOW, LOW, LOW, LOW, LOW, LOW, HIGH] [- 1, 0x31, 0x53, 0, 0, 0x84]"

definition partial_frame_world :: state where
  "partial_frame_world =
     boot 7 example_card
       ([HIGH, LOW, LOW, LOW, LOW, HIGH] @ [HIGH, LOW, LOW, LOW, LOW, LOW, LOW, HIGH])
       ([- 1, 0x31, 0x53, 0] @ [- 1, 0x31, 0x53, 0, 0, 0x84])"

definition glitch_world :: state where
  "glitch_world = boot 7 example_card [LOW, HIGH] []"

definition bad_checksum_world :: state where
  "bad_checksum_world =
     boot 7 example_card [LOW, LOW, LOW, LOW, LOW, LOW, HIGH] [0x31, 0x53, 0, 0, 0x85]"

definition other_device_world :: state where
  "other_device_world =
     boot 7 example_card [LOW, LOW, LOW, LOW, LOW, LOW, HIGH] [0x34, 0x53, 0, 0, 0x87]"

text \<open>
  A card whose image for index 7 announces 2 sectors but ends 50 bytes into the second
  one, and the state with that image open.
\<close>

definition cut_image :: sdfile where
  "cut_image =
     \<lparr>contents = image_header 0x10 0x00 @ replicate 128 0xAA @ replicate 50 0xBB,
      readonly = False\<rparr>"

definition cut_card :: sdcard where
  "cut_card = \<lparr>begin_ok = True, atari = Some [(''07_cut.atr'', cut_image)]\<rparr>"

definition cut_world :: state where
  "cut_world = opendiskfile 0 7 (boot 7 cut_card [] [])"

text \<open>
  A trace with noise: a stray byte while the line is idle, a frame with a wrong checksum
  followed by two more bytes before the line is released, then a stray byte and an empty
  poll while idle, and a well-formed STATUS frame.
\<close>

definition noise_world :: state where
  "noise_world =
     boot 7 example_card
       ([HIGH, LOW, LOW, LOW, LOW, LOW, LOW, LOW, LOW, HIGH]
          @ [HIGH, HIGH, LOW, LOW, LOW, LOW, LOW, LOW, HIGH])
       ([0x55, 0x31, 0x53, 0, 0, 0x85, 0x77, 0x78] @ [0x99, - 1, 0x31, 0x53, 0, 0, 0x84])"

section \<open>Checksum properties\<close>

lemma add_carry_spec:
  assumes "uint s \<le> 255"
  shows "uint (add_carry s b) = spec_carry (uint s) (uint b) \<and> uint (add_carry s b) \<le> 255"
proof -
  have b: "uint b \<le> 255" using uint_lt2p [of b] by simp
  have s0: "0 \<le> uint s" and b0: "0 \<le> uint b" by simp_all
  have u: "uint (s + ucast b) = uint s + uint b"
    using assms b by (simp add: uint_word_ariths uint_up_ucast is_up take_bit_int_eq_self)
  have sg: "sint (s + ucast b) = uint s + uint b"
  proof -
    have "signed_take_bit 15 (uint s + uint b) = uint s + uint b"
    proof (rule signed_take_bit_int_eq_self)
      have "- (2 ^ 15) \<le> (0::int)" by simp
      then show "- (2 ^ 15) \<le> uint s + uint b" using s0 b0 by linarith
      show "uint s + uint b < 2 ^ 15" using assms b by simp
    qed
    then show ?thesis using u by (simp add: sint_uint)
  qed
  show ?thesis
  proof (cases "256 \<le> uint s + uint b")
    case True
    have le: "(256::c_int) \<le> s + ucast b"
      using True u by (simp add: word_le_def)
    have "uint ((s + ucast b) - 256 + 1) = uint s + uint b - 256 + 1"
      using True u assms b le by (simp add: uint_word_ariths uint_sub_if' take_bit_int_eq_self)
    then show ?thesis
      using True sg assms b by (simp add: add_carry_def spec_carry_def word_sle_eq Let_def)
  next
    case False
    then show ?thesis
      using sg u assms b by (simp add: add_carry_def spec_carry_def word_sle_eq Let_def)
  qed
qed

lemma sum_loop_spec:
  "uint s \<le> 255 \<Longrightarrow>
     uint (sum_loop s bs) = foldl spec_carry (uint s) (map uint bs) \<and> uint (sum_loop s bs) \<le> 255"
proof (induction bs arbitrary: s)
  case Nil
  then show ?case by simp
next
  case (Cons b bs)
  from add_carry_spec [OF Cons.prems, of b]
  have step: "uint (add_carry s b) = spec_carry (uint s) (uint b)" and bound: "uint (add_carry s b) \<le> 255"
    by simp_all
  from Cons.IH [OF bound] show ?case by (simp add: step)
qed

lemma sum_loop_checksum: "uint (sum_loop 0 bs) = spec_checksum bs"
  using sum_loop_spec [of 0 bs] by (simp add: spec_checksum_def)

lemma spec_checksum_range: "0 \<le> spec_checksum bs \<and> spec_checksum bs \<le> 255"
  using sum_loop_spec [of 0 bs] sum_loop_checksum [of bs] uint_ge_0 [of "sum_loop 0 bs"] by simp

lemma sum_loop_low_byte: "ucast (ucast (sum_loop 0 bs) :: byte) = sum_loop 0 bs"
proof -
  have "uint (sum_loop 0 bs) \<le> 255" using sum_loop_spec [of 0 bs] by simp
  then have "uint (sum_loop 0 bs) < 2 ^ 8" by simp
  then show ?thesis
    by (simp add: word_eq_iff_unsigned [where ?'a = int] unsigned_ucast_eq unsigned_take_bit_eq
        take_bit_int_eq_self)
qed

lemma foldl_carry_small:
  "0 \<le> a \<Longrightarrow> \<forall>x \<in> set xs. 0 \<le> x \<Longrightarrow> a + sum_list xs < 256 \<Longrightarrow> foldl spec_carry a xs = a + sum_list xs"
proof (induction xs arbitrary: a)
  case Nil
  then show ?case by simp
next
  case (Cons x xs)
  have nn: "0 \<le> sum_list xs" using Cons.prems(2) by (simp add: sum_list_nonneg)
  have x0: "0 \<le> x" using Cons.prems(2) by simp
  have small: "a + x < 256" using Cons.prems(3) nn by simp
  have "foldl spec_carry (a + x) xs = (a + x) + sum_list xs"
    using Cons.IH [of "a + x"] Cons.prems x0 by (simp add: add.assoc)
  moreover have "spec_carry a x = a + x" using small by (simp add: spec_carry_def)
  ultimately show ?case by (simp add: add.assoc)
qed

lemma foldl_carry_256:
  "0 \<le> a \<Longrightarrow> a \<le> 255 \<Longrightarrow> \<forall>x \<in> set xs. 0 \<le> x \<Longrightarrow> a + sum_list xs = 256 \<Longrightarrow> foldl spec_carry a xs = 1"
proof (induction xs arbitrary: a)
  case Nil
  then show ?case by simp
next
  case (Cons x xs)
  have nn: "0 \<le> sum_list xs" using Cons.prems(3) by (simp add: sum_list_nonneg)
  have x0: "0 \<le> x" using Cons.prems(3) by simp
  show ?case
  proof (cases "256 \<le> a + x")
    case True
    then have ax: "a + x = 256" and z: "sum_list xs = 0" using Cons.prems(4) nn by simp_all
    have "foldl spec_carry 1 xs = 1 + sum_list xs"
      by (rule foldl_carry_small) (use Cons.prems(3) z in simp_all)
    moreover have "spec_carry a x = 1" using ax by (simp add: spec_carry_def)
    ultimately show ?thesis using z by simp
  next
    case False
    then have "foldl spec_carry (a + x) xs = 1"
      using Cons.IH [of "a + x"] Cons.prems x0 by (simp add: add.assoc)
    moreover have "spec_carry a x = a + x" using False by (simp add: spec_carry_def)
    ultimately show ?thesis by simp
  qed
qed

lemma spec_checksum_256: "sum_list (map uint bs) = 256 \<Longrightarrow> spec_checksum bs = 1"
  unfolding spec_checksum_def by (rule foldl_carry_256) simp_all

lemma receivebyte_uint: "receivebyte (uint (b::byte) # rs) = Some (b, rs)"
  by simp

lemma receive_loop_bytes:
  "receive_loop (length bs) data s (map uint bs @ rest) = Some (data @ bs, sum_loop s bs, rest)"
  by (induction bs arbitrary: data s) simp_all

lemma receive_loop_result:
  "receive_loop n data s rs = Some (data', s', rs') \<Longrightarrow>
     \<exists>new. data' = data @ new \<and> length new = n \<and> s' = sum_loop s new"
proof (induction n arbitrary: data s rs)
  case 0
  then show ?case by simp
next
  case (Suc n)
  from Suc.prems obtain b rs1 where rb: "receivebyte rs = Some (b, rs1)"
    and rest: "receive_loop n (data @ [b]) (add_carry s b) rs1 = Some (data', s', rs')"
    by (auto split: option.splits)
  from Suc.IH [OF rest] obtain new where "data' = (data @ [b]) @ new" "length new = n"
    "s' = sum_loop (add_carry s b) new" by blast
  then have "data' = data @ (b # new) \<and> length (b # new) = Suc n \<and> s' = sum_loop s (b # new)"
    by simp
  then show ?case by blast
qed

lemma sendwithchecksum_tx:
  "sio_tx (sendwithchecksum data st) = sio_tx st @ data @ [ucast (sum_loop 0 data)]"
  by (simp add: sendwithchecksum_def SIO_write_def SIO_write_buf_def)

lemma cksum_byte: "uint (ucast (sum_loop 0 data) :: byte) = spec_checksum data"
proof -
  have "uint (ucast (ucast (sum_loop 0 data) :: byte) :: c_int) = uint (ucast (sum_loop 0 data) :: byte)"
    by (simp add: uint_up_ucast is_up)
  then show ?thesis by (simp add: sum_loop_low_byte sum_loop_checksum)
qed

lemma receivewithchecksum_result:
  assumes "receivewithchecksum len st = Some (data, ok, st')"
  shows "length data = nat len \<and>
         (\<exists>rs check. receive_loop (nat len) [] 0 (sio_rx st) = Some (data, sum_loop 0 data, rs)
            \<and> receivebyte rs = Some (check, sio_rx st')
            \<and> st' = st\<lparr>sio_rx := sio_rx st'\<rparr>
            \<and> ok = (uint check = spec_checksum data))"
proof -
  from assms obtain s rs check rs' where
    loop: "receive_loop (nat len) [] 0 (sio_rx st) = Some (data, s, rs)"
    and rb: "receivebyte rs = Some (check, rs')"
    and ok: "ok = (ucast check = s)" and st': "st' = st\<lparr>sio_rx := rs'\<rparr>"
    by (auto simp: receivewithchecksum_def split: option.splits)
  from receive_loop_result [OF loop] have len: "length data = nat len" and s: "s = sum_loop 0 data"
    by auto
  have "(ucast check = sum_loop 0 data) = (uint check = spec_checksum data)"
  proof -
    have "(ucast check = sum_loop 0 data) = (uint (ucast check :: c_int) = uint (sum_loop 0 data))"
      by (simp add: word_uint_eq_iff)
    then show ?thesis by (simp add: uint_up_ucast is_up sum_loop_checksum)
  qed
  with loop rb ok st' len s show ?thesis by auto
qed

lemma receivewithchecksum_bytes:
  "receivewithchecksum (int (length b)) (st\<lparr>sio_rx := map uint b @ uint (c::byte) # rest\<rparr>)
     = Some (b, ucast c = sum_loop 0 b, st\<lparr>sio_rx := rest\<rparr>)"
proof -
  have "receive_loop (length b) [] 0 (map uint b @ (uint c # rest))
      = Some ([] @ b, sum_loop 0 b, uint c # rest)"
    by (rule receive_loop_bytes)
  then show ?thesis by (simp add: receivewithchecksum_def)
qed

text \<open>
  C1. The checksum is a running sum with end-around carry. The byte that
  \<^verbatim>\<open>sendwithchecksum\<close> appends, the 16-bit sum of the loop and the sum that
  \<^verbatim>\<open>receivewithchecksum\<close> compares the received check byte with are all the checksum in
  the spec's words: each further byte is added to the running sum, and a sum that reaches
  or exceeds 256 becomes \<open>(sum - 256) + 1\<close>. The result always fits a byte, and a span
  whose plain sum is exactly 256 has checksum 1.
\<close>
theorem checksum_end_around_carry:
  "sio_tx (sendwithchecksum data st) = sio_tx st @ data @ [word_of_int (spec_checksum data)]
   \<and> uint (sum_loop 0 data) = spec_checksum data
   \<and> 0 \<le> spec_checksum data \<and> spec_checksum data \<le> 255
   \<and> spec_checksum (data @ [b]) =
        (if spec_checksum data + uint b \<ge> 256 then (spec_checksum data + uint b - 256) + 1
         else spec_checksum data + uint b)
   \<and> (receivewithchecksum len st1 = Some (data', ok, st') \<longrightarrow>
        (\<exists>rs check. receive_loop (nat len) [] 0 (sio_rx st1) = Some (data', sum_loop 0 data', rs)
            \<and> receivebyte rs = Some (check, sio_rx st')
            \<and> ok = (uint check = spec_checksum data')))
   \<and> (sum_list (map uint data) = 256 \<longrightarrow> spec_checksum data = 1)"
proof -
  have "(ucast (sum_loop 0 data) :: byte) = word_of_int (spec_checksum data)"
    using cksum_byte [of data] by (metis word_of_int_uint)
  then have 1: "sio_tx (sendwithchecksum data st) = sio_tx st @ data @ [word_of_int (spec_checksum data)]"
    by (simp add: sendwithchecksum_tx)
  have 2: "spec_checksum (data @ [b]) =
        (if spec_checksum data + uint b \<ge> 256 then (spec_checksum data + uint b - 256) + 1
         else spec_checksum data + uint b)"
    by (simp add: spec_checksum_def spec_carry_def)
  have 3: "receivewithchecksum len st1 = Some (data', ok, st') \<longrightarrow>
        (\<exists>rs check. receive_loop (nat len) [] 0 (sio_rx st1) = Some (data', sum_loop 0 data', rs)
            \<and> receivebyte rs = Some (check, sio_rx st')
            \<and> ok = (uint check = spec_checksum data'))"
    using receivewithchecksum_result [of len st1 data' ok st'] by blast
  show ?thesis
    using 1 2 3 sum_loop_checksum [of data] spec_checksum_range [of data] spec_checksum_256 [of data]
    by blast
qed

theorem checksum_end_around_carry_witness:
  "sum_list (map uint [128, 128 :: byte]) = 256
   \<and> spec_checksum [128, 128] = 1
   \<and> sio_tx (sendwithchecksum [128, 128] (boot 0 no_card [] [])) = [128, 128, 1]
   \<and> receivewithchecksum 2 (boot 0 no_card [] [128, 128, 1])
       = Some ([128, 128], True, boot 0 no_card [] [])"
proof -
  have s: "sum_list (map uint [128, 128 :: byte]) = 256" by simp
  have r: "receivewithchecksum 2 (boot 0 no_card [] [128, 128, 1])
       = Some ([128, 128], True, boot 0 no_card [] [])"
    using receivewithchecksum_bytes [where b = "[128, 128]" and st = "boot 0 no_card [] []" and c = 1 and rest = "[]"]
    by (simp add: boot_def add_carry_def)
  from checksum_end_around_carry [where data = "[128, 128]" and st = "boot 0 no_card [] []"
      and b = 0 and len = 2 and ?st1.0 = "boot 0 no_card [] [128, 128, 1]"
      and data' = "[128, 128]" and ok = True and st' = "boot 0 no_card [] []"] s r
  show ?thesis by (simp add: boot_def)
qed



section \<open>Sector addressing and header arithmetic\<close>

lemma ucast_byte_uint16: "uint (ucast (b::byte) :: c_uint) = uint b"
  by (simp add: uint_up_ucast is_up)

lemma byte_le_255: "uint (b::byte) \<le> 255"
  using uint_lt2p [of b] by simp

lemma push8_uint16: "uint (push_bit 8 (ucast (b::byte)) :: c_uint) = uint b * 256"
proof -
  have "uint (push_bit 8 (ucast b) :: c_uint) = take_bit 16 (push_bit 8 (uint b))"
    by (simp add: unsigned_push_bit_eq ucast_byte_uint16)
  also have "\<dots> = push_bit 8 (uint b)"
    by (rule take_bit_int_eq_self) (use byte_le_255 [of b] in \<open>simp_all add: push_bit_eq_mult\<close>)
  finally show ?thesis by (simp add: push_bit_eq_mult)
qed

lemma decode_sector_word:
  "decode_sector aux1 aux2 = word_of_int (uint aux1 + uint aux2 * 256 - 1)"
proof -
  have a: "(ucast aux1 :: c_uint) = word_of_int (uint aux1)"
    by (simp add: word_uint_eq_iff ucast_byte_uint16)
  have b: "(push_bit 8 (ucast aux2) :: c_uint) = word_of_int (uint aux2 * 256)"
  proof -
    have "uint (push_bit 8 (ucast aux2) :: c_uint) = uint (word_of_int (uint aux2 * 256) :: c_uint)"
      using byte_le_255 [of aux2] by (simp only: push8_uint16 uint_word_of_int) (simp add: take_bit_eq_mod)
    then show ?thesis by (simp only: word_uint_eq_iff)
  qed
  show ?thesis
    unfolding decode_sector_def a b by (simp only: wi_hom_syms word_of_int_1)
qed

lemma decode_sector_uint:
  "uint (decode_sector aux1 aux2) = (uint aux1 + uint aux2 * 256 - 1) mod 65536"
  by (simp only: decode_sector_word uint_word_of_int) (simp add: take_bit_eq_mod)

lemma decode_sector_exact:
  assumes "aux1 \<noteq> 0 \<or> aux2 \<noteq> 0"
  shows "uint (decode_sector aux1 aux2) = uint aux1 + uint aux2 * 256 - 1"
proof -
  have nz: "uint aux1 \<noteq> 0 \<or> uint aux2 \<noteq> 0"
    using assms by (simp add: uint_0_iff)
  have "0 \<le> uint aux1" "0 \<le> uint aux2" by simp_all
  with nz have lo: "0 \<le> uint aux1 + uint aux2 * 256 - 1" by linarith
  have hi: "uint aux1 + uint aux2 * 256 - 1 < 65536"
    using byte_le_255 [of aux1] byte_le_255 [of aux2] by linarith
  show ?thesis using lo hi by (simp add: decode_sector_uint)
qed


lemma drive_cast: "(ucast (ucast (dev::byte) - 0x31 :: c_uint) :: byte) = dev - 0x31"
proof -
  have c: "(ucast dev :: c_uint) = word_of_int (uint dev)"
    by (simp only: ucast_eq)
  have "(ucast dev - 0x31 :: c_uint) = word_of_int (uint dev - 49)"
    unfolding c by (simp only: wi_hom_syms word_of_int_numeral)
  then have "uint (ucast dev - 0x31 :: c_uint) = (uint dev - 49) mod 65536"
    by (simp only: uint_word_of_int) simp
  then have "(ucast (ucast dev - 0x31 :: c_uint) :: byte) = word_of_int ((uint dev - 49) mod 65536)"
    by (simp only: ucast_eq)
  also have "\<dots> = word_of_int (uint dev - 49)"
    by (rule word_of_int_eq_iff [THEN iffD2]) (simp add: take_bit_eq_mod mod_mod_cancel)
  also have "\<dots> = dev - 0x31"
    by (simp only: wi_hom_syms word_of_int_numeral word_of_int_uint)
  finally show ?thesis .
qed

lemma or_byte_shift:
  fixes p :: c_ulong and b :: byte
  shows "push_bit 8 p OR ucast b = push_bit 8 p + ucast b"
proof (rule disjunctive_add [symmetric])
  fix n
  show "\<not> bit (push_bit 8 p) n \<or> \<not> bit (ucast b :: c_ulong) n"
  proof (cases "n < 8")
    case True
    then show ?thesis by (simp only: bit_push_bit_iff) simp
  next
    case False
    have "\<not> bit b n" using bit_imp_le_length [of b n] False by auto
    then show ?thesis by (simp only: bit_ucast_iff) simp
  qed
qed

lemma uint_ucast_byte32: "uint (ucast (b::byte) :: c_ulong) = uint b"
  by (simp add: uint_up_ucast is_up)

lemma header_paragraphs_uint:
  "uint (header_paragraphs h) = uint (h ! 6) * 65536 + uint (h ! 3) * 256 + uint (h ! 2)"
proof -
  have b6: "uint (h ! 6) < 256" and b3: "uint (h ! 3) < 256" and b2: "uint (h ! 2) < 256"
    using uint_lt2p [of "h ! 6"] uint_lt2p [of "h ! 3"] uint_lt2p [of "h ! 2"] by simp_all
  have eq: "header_paragraphs h = (ucast (h ! 6) * 256 + ucast (h ! 3)) * 256 + ucast (h ! 2)"
    unfolding header_paragraphs_def Let_def or_byte_shift by (simp add: push_bit_eq_mult)
  have nn: "0 \<le> uint (h ! 6)" "0 \<le> uint (h ! 3)" "0 \<le> uint (h ! 2)" by simp_all
  have lo: "0 \<le> (uint (h ! 6) * 256 + uint (h ! 3)) * 256 + uint (h ! 2)"
    using nn by simp
  have hi: "(uint (h ! 6) * 256 + uint (h ! 3)) * 256 + uint (h ! 2) < 2 ^ 32"
    using b6 b3 b2 by simp
  have "header_paragraphs h
      = word_of_int ((uint (h ! 6) * 256 + uint (h ! 3)) * 256 + uint (h ! 2))"
    unfolding eq by (simp only: ucast_eq wi_hom_syms word_of_int_numeral)
  then have "uint (header_paragraphs h)
      = take_bit 32 ((uint (h ! 6) * 256 + uint (h ! 3)) * 256 + uint (h ! 2))"
    by (simp only: uint_word_of_int_eq) simp
  also have "\<dots> = (uint (h ! 6) * 256 + uint (h ! 3)) * 256 + uint (h ! 2)"
    using lo hi by (simp only: take_bit_int_eq_self)
  finally show ?thesis by simp
qed

lemma or_int_shift:
  fixes x :: int and b :: byte
  shows "push_bit 8 x OR uint b = push_bit 8 x + uint b"
proof (rule disjunctive_add [symmetric])
  fix n
  show "\<not> bit (push_bit 8 x) n \<or> \<not> bit (uint b) n"
  proof (cases "n < 8")
    case True
    then show ?thesis by (simp only: bit_push_bit_iff) simp
  next
    case False
    have "\<not> bit b n" using bit_imp_le_length [of b n] False by auto
    then show ?thesis by (simp only: bit_uint_iff) simp
  qed
qed

lemma spec_paragraphs_arith:
  "spec_paragraphs h = uint (h ! 6) * 65536 + uint (h ! 3) * 256 + uint (h ! 2)"
proof -
  have "push_bit 16 (uint (h ! 6)) OR push_bit 8 (uint (h ! 3))
      = push_bit 8 (push_bit 8 (uint (h ! 6)) OR uint (h ! 3))"
    by (simp only: push_bit_or push_bit_push_bit) simp
  then have "spec_paragraphs h = push_bit 8 (push_bit 8 (uint (h ! 6)) + uint (h ! 3)) + uint (h ! 2)"
    unfolding spec_paragraphs_def by (simp only: or_int_shift)
  then show ?thesis by (simp add: push_bit_eq_mult)
qed

lemma header_paragraphs_spec: "uint (header_paragraphs h) = spec_paragraphs h"
  by (simp only: header_paragraphs_uint spec_paragraphs_arith)

lemma spec_paragraphs_nonneg: "0 \<le> spec_paragraphs h"
  using header_paragraphs_spec [of h, symmetric] by simp

lemma sector_count_cast:
  fixes p :: c_ulong
  assumes "uint p \<le> 0x70000"
  shows "uint (ucast (drop_bit 3 p) :: c_uint) = uint p div 8"
proof -
  have "uint (drop_bit 3 p) = uint p div 8"
    by (simp add: drop_bit_eq_div uint_div)
  moreover have "uint p div 8 < 2 ^ 16" using assms by simp
  moreover have "0 \<le> uint p div 8" by (rule pos_imp_zdiv_nonneg_iff [THEN iffD2]) simp_all
  ultimately show ?thesis
    by (simp add: unsigned_ucast_eq take_bit_int_eq_self)
qed

lemma check_header_spec:
  "check_header h =
     (if spec_header_valid h then Some (word_of_int (spec_paragraphs h div 8)) else None)"
proof (cases "spec_header_valid h")
  case True
  then have le: "uint (header_paragraphs h) \<le> 0x70000" and ge: "8 \<le> uint (header_paragraphs h)"
    by (simp_all add: spec_header_valid_def header_paragraphs_spec)
  have "\<not> header_paragraphs h < 8" using ge by (simp add: word_less_def)
  moreover have "\<not> header_paragraphs h > 0x70000" using le by (simp add: word_less_def)
  moreover have "(ucast (drop_bit 3 (header_paragraphs h)) :: c_uint)
      = word_of_int (spec_paragraphs h div 8)"
    using sector_count_cast [OF le] by (metis header_paragraphs_spec word_of_int_uint)
  ultimately show ?thesis using True by (simp add: check_header_def spec_header_valid_def Let_def)
next
  case False
  have "(header_paragraphs h < 8) = (spec_paragraphs h < 8)"
    by (simp add: word_less_def header_paragraphs_spec)
  moreover have "(header_paragraphs h > 0x70000) = (spec_paragraphs h > 0x70000)"
    by (simp add: word_less_def header_paragraphs_spec)
  ultimately show ?thesis using False
    by (auto simp: check_header_def spec_header_valid_def Let_def)
qed

lemma check_header_range:
  assumes "check_header h = Some n"
  shows "spec_header_valid h \<and> uint n = spec_paragraphs h div 8 \<and> 1 \<le> uint n \<and> uint n \<le> 0xE000"
proof -
  from assms have v: "spec_header_valid h" and n: "n = word_of_int (spec_paragraphs h div 8)"
    by (auto simp: check_header_spec split: if_splits)
  from v have lo: "8 \<le> spec_paragraphs h" and hi: "spec_paragraphs h \<le> 0x70000"
    by (simp_all add: spec_header_valid_def)
  have d1: "1 \<le> spec_paragraphs h div 8" using lo by simp
  have d2: "spec_paragraphs h div 8 \<le> 0xE000" using hi by simp
  have "uint n = spec_paragraphs h div 8"
    unfolding n using d1 d2 by (simp add: uint_word_of_int take_bit_int_eq_self)
  with v d1 d2 show ?thesis by simp
qed

section \<open>Command frames, dispatch and status\<close>

lemma command_sum_check:
  "(sum_loop 0 bs \<noteq> ucast (c::byte)) = (uint c \<noteq> spec_checksum bs)"
proof -
  have "(sum_loop 0 bs = ucast c) = (uint (sum_loop 0 bs) = uint (ucast c :: c_int))"
    by (simp only: word_uint_eq_iff)
  then show ?thesis by (auto simp: ucast_byte_uint16 sum_loop_checksum)
qed

lemma handle_sio_frame:
  assumes "capture_frame st = Some (command, st1)"
  shows "handle_sio st =
     (if length command < 5 \<or> uint (command ! 4) \<noteq> spec_checksum (take 4 command)
         \<or> uint (command ! 0) < 0x31 \<or> uint (command ! 0) > 0x33
      then Some st1 else dispatch_command command st1)"
proof -
  have "(command ! 0 < 0x31) = (uint (command ! 0) < 0x31)"
    and "(command ! 0 > 0x33) = (uint (command ! 0) > 0x33)"
    by (simp_all add: word_less_def)
  then show ?thesis
    using assms by (auto simp: handle_sio_def command_sum_check)
qed

lemma dispatch_read:
  "dispatch_command [dev, 0x52, aux1, aux2, ck] st =
     Some (handlecommand_read (decode_sector aux1 aux2)
        (opendiskfile (dev - 0x31) (getdiskselectorvalue st) (SIO_write 0x41 st)))"
  by (simp add: dispatch_command_def drive_cast getdiskselectorvalue_def SIO_write_def)

lemma dispatch_write:
  "dispatch_command [dev, 0x57, aux1, aux2, ck] st =
     handlecommand_write (decode_sector aux1 aux2)
        (opendiskfile (dev - 0x31) (getdiskselectorvalue st) (SIO_write 0x41 st))"
  by (simp add: dispatch_command_def drive_cast getdiskselectorvalue_def SIO_write_def)

lemma dispatch_status:
  "dispatch_command [dev, 0x53, aux1, aux2, ck] st =
     Some (handlecommand_status
        (opendiskfile (dev - 0x31) (getdiskselectorvalue st) (SIO_write 0x41 st)))"
  by (simp add: dispatch_command_def drive_cast getdiskselectorvalue_def SIO_write_def)

text \<open>
  C6. For READ and WRITE frames the sector index passed to the handler is
  \<open>aux1 + aux2*256 - 1\<close>, computed in 16-bit unsigned arithmetic: it is that number
  itself unless both aux bytes are 0. \<open>aux1 = 1, aux2 = 0\<close> gives index 0 and
  \<open>aux1 = 0, aux2 = 1\<close> gives index 255. A captured, checksum-valid frame for one of the
  three device-ids makes \<^verbatim>\<open>handle_sio\<close> acknowledge, select the image and call the read
  or write handler with this index.
\<close>

theorem sector_index_decoding:
  "decode_sector aux1 aux2 = word_of_int (uint aux1 + uint aux2 * 256 - 1)
   \<and> (aux1 \<noteq> 0 \<or> aux2 \<noteq> 0 \<longrightarrow> uint (decode_sector aux1 aux2) = uint aux1 + uint aux2 * 256 - 1)
   \<and> decode_sector 1 0 = 0 \<and> decode_sector 0 1 = 255
   \<and> (capture_frame st = Some ([dev, cmd, aux1, aux2, ck], st1)
        \<and> uint ck = spec_checksum [dev, cmd, aux1, aux2] \<and> 0x31 \<le> uint dev \<and> uint dev \<le> 0x33 \<longrightarrow>
        (cmd = 0x52 \<longrightarrow> handle_sio st =
           Some (handlecommand_read (word_of_int (uint aux1 + uint aux2 * 256 - 1))
             (opendiskfile (dev - 0x31) (getdiskselectorvalue st1) (SIO_write 0x41 st1))))
        \<and> (cmd = 0x57 \<longrightarrow> handle_sio st =
           handlecommand_write (word_of_int (uint aux1 + uint aux2 * 256 - 1))
             (opendiskfile (dev - 0x31) (getdiskselectorvalue st1) (SIO_write 0x41 st1))))"
proof -
  have ex: "decode_sector 1 0 = 0" "decode_sector 0 1 = 255"
    by (simp_all add: decode_sector_def)
  have fr: "capture_frame st = Some ([dev, cmd, aux1, aux2, ck], st1)
        \<and> uint ck = spec_checksum [dev, cmd, aux1, aux2] \<and> 0x31 \<le> uint dev \<and> uint dev \<le> 0x33 \<longrightarrow>
        (cmd = 0x52 \<longrightarrow> handle_sio st =
           Some (handlecommand_read (word_of_int (uint aux1 + uint aux2 * 256 - 1))
             (opendiskfile (dev - 0x31) (getdiskselectorvalue st1) (SIO_write 0x41 st1))))
        \<and> (cmd = 0x57 \<longrightarrow> handle_sio st =
           handlecommand_write (word_of_int (uint aux1 + uint aux2 * 256 - 1))
             (opendiskfile (dev - 0x31) (getdiskselectorvalue st1) (SIO_write 0x41 st1)))"
  proof (intro impI conjI)
    assume a: "capture_frame st = Some ([dev, cmd, aux1, aux2, ck], st1)
        \<and> uint ck = spec_checksum [dev, cmd, aux1, aux2] \<and> 0x31 \<le> uint dev \<and> uint dev \<le> 0x33"
    then have h: "handle_sio st = dispatch_command [dev, cmd, aux1, aux2, ck] st1"
      using handle_sio_frame [of st "[dev, cmd, aux1, aux2, ck]" st1] by simp
    { assume "cmd = 0x52"
      then show "handle_sio st =
           Some (handlecommand_read (word_of_int (uint aux1 + uint aux2 * 256 - 1))
             (opendiskfile (dev - 0x31) (getdiskselectorvalue st1) (SIO_write 0x41 st1)))"
        using h by (simp only: dispatch_read decode_sector_word) }
    { assume "cmd = 0x57"
      then show "handle_sio st =
           handlecommand_write (word_of_int (uint aux1 + uint aux2 * 256 - 1))
             (opendiskfile (dev - 0x31) (getdiskselectorvalue st1) (SIO_write 0x41 st1))"
        using h by (simp only: dispatch_write decode_sector_word) }
  qed
  show ?thesis
    using decode_sector_word [of aux1 aux2] decode_sector_exact [of aux1 aux2] ex fr by blast
qed

lemma read_frame_world_capture:
  "capture_frame read_frame_world = Some ([0x31, 0x52, 0, 1, 0x84], boot 7 no_card [] [])"
  by (simp add: capture_frame_def read_frame_world_def boot_def)

theorem sector_index_decoding_witness:
  "uint (decode_sector 0 1) = 255
   \<and> capture_frame read_frame_world = Some ([0x31, 0x52, 0, 1, 0x84], boot 7 no_card [] [])
   \<and> uint (0x84 :: byte) = spec_checksum [0x31, 0x52, 0, 1]
   \<and> handle_sio read_frame_world =
       Some (handlecommand_read 255 (opendiskfile 0 7 (SIO_write 0x41 (boot 7 no_card [] []))))"
proof -
  have ck: "uint (0x84 :: byte) = spec_checksum [0x31, 0x52, 0, 1]"
    by (simp add: spec_checksum_def spec_carry_def)
  have sel: "getdiskselectorvalue (boot 7 no_card [] []) = 7"
    by (simp add: getdiskselectorvalue_def boot_def)
  from sector_index_decoding [where ?aux1.0 = 0 and ?aux2.0 = 1 and st = read_frame_world
      and dev = "0x31" and cmd = "0x52" and ck = "0x84" and ?st1.0 = "boot 7 no_card [] []"]
    read_frame_world_capture ck sel
  show ?thesis by simp
qed

lemma sendwithchecksum_state:
  "sendwithchecksum data st = st\<lparr>sio_tx := sio_tx st @ data @ [word_of_int (spec_checksum data)]\<rparr>"
proof -
  have "(ucast (sum_loop 0 data) :: byte) = word_of_int (spec_checksum data)"
    using cksum_byte [of data] by (metis word_of_int_uint)
  then show ?thesis by (simp add: sendwithchecksum_def SIO_write_def SIO_write_buf_def)
qed

lemma status_record_cases:
  "status_record st =
     (if diskavailable st then (if 720 < uint (disksize st) then [0x90, 0x00, 0xE0, 0x00] else [0x10, 0x00, 0xE0, 0x00])
      else [0x00, 0x80, 0xE0, 0x00])"
proof -
  have gt: "(disksize st > 720) = (720 < uint (disksize st))"
    by (simp add: word_less_def)
  show ?thesis unfolding status_record_def gt by simp
qed

text \<open>
  C8. The STATUS answer is the completion byte, the 4-byte status record and its checksum,
  and the record depends only on the backend state. Without an image: motor bit (bit 4 of
  byte 0) clear and not-ready bit (bit 7 of byte 1) set. With an image: motor bit set,
  enhanced-density bit (bit 7 of byte 0) set exactly when the sector count exceeds 720. In
  both cases byte 2 is the format timeout 0xE0.
\<close>

theorem status_record_of_backend:
  "handlecommand_status st =
     st\<lparr>sio_tx := sio_tx st @ [0x43] @ status_record st @ [word_of_int (spec_checksum (status_record st))]\<rparr>
   \<and> length (status_record st) = 4
   \<and> status_record st ! 2 = 0xE0
   \<and> status_record st ! 3 = 0x00
   \<and> (diskavailable st \<longrightarrow>
         bit (status_record st ! 0) 4 \<and> (bit (status_record st ! 0) 7 \<longleftrightarrow> 720 < uint (disksize st))
         \<and> status_record st ! 1 = 0x00
         \<and> status_record st = [if 720 < uint (disksize st) then 0x90 else 0x10, 0x00, 0xE0, 0x00])
   \<and> (\<not> diskavailable st \<longrightarrow>
         \<not> bit (status_record st ! 0) 4 \<and> bit (status_record st ! 1) 7
         \<and> status_record st = [0x00, 0x80, 0xE0, 0x00])"
proof -
  have tx: "handlecommand_status st =
     st\<lparr>sio_tx := sio_tx st @ [0x43] @ status_record st @ [word_of_int (spec_checksum (status_record st))]\<rparr>"
    by (simp add: handlecommand_status_def sendwithchecksum_state SIO_write_def)
  show ?thesis
  proof (cases "diskavailable st")
    case True
    show ?thesis
    proof (cases "720 < uint (disksize st)")
      case True
      with \<open>diskavailable st\<close> have "status_record st = [0x90, 0x00, 0xE0, 0x00]"
        by (simp add: status_record_cases)
      with tx True \<open>diskavailable st\<close> show ?thesis by simp
    next
      case False
      with \<open>diskavailable st\<close> have "status_record st = [0x10, 0x00, 0xE0, 0x00]"
        by (simp add: status_record_cases)
      with tx False \<open>diskavailable st\<close> show ?thesis by simp
    qed
  next
    case False
    then have "status_record st = [0x00, 0x80, 0xE0, 0x00]"
      by (simp add: status_record_cases)
    with tx False show ?thesis by simp
  qed
qed

section \<open>File selection, header validation and sector access\<close>

lemma of_char_range: "0 \<le> (of_char c :: int) \<and> (of_char c :: int) < 256"
proof -
  have lo: "0 \<le> (of_char c :: int) mod 256" by (rule pos_mod_sign) simp
  have hi: "(of_char c :: int) mod 256 < 256" by (rule pos_mod_bound) simp
  from lo [unfolded of_char_mod_256] hi [unfolded of_char_mod_256] show ?thesis by (rule conjI)
qed

lemma schar_lits:
  "schar CHR ''0'' = 48" "schar CHR ''9'' = 57" "schar CHR ''_'' = 95"
  "schar CHR ''A'' = 65" "schar CHR ''B'' = 66" "schar CHR ''H'' = 72"
  by (simp_all add: schar_def)

lemma schar_digit:
  "(48 \<le> schar c \<and> schar c \<le> 57) = (48 \<le> (of_char c :: int) \<and> (of_char c :: int) \<le> 57)"
  using of_char_range [of c] by (auto simp: schar_def Let_def)

lemma schar_ascii: "(of_char c :: int) < 128 \<Longrightarrow> schar c = of_char c"
  by (simp add: schar_def Let_def)

lemma schar_neg: "\<not> (of_char c :: int) < 128 \<Longrightarrow> schar c < 0"
  using of_char_range [of c] by (simp add: schar_def Let_def)

lemma char_of_digit:
  assumes "0 \<le> k" "k \<le> 9"
  shows "(of_char (char_of (48 + k :: int)) :: int) = 48 + k"
  using assms by (simp add: of_char_of)

lemma index_digits_iff:
  assumes a: "48 \<le> (of_char a :: int)" "(of_char a :: int) \<le> 57"
      and b: "48 \<le> (of_char b :: int)" "(of_char b :: int) \<le> 57"
  shows "(((of_char a :: int) - 48) * 10 + of_char b - 48 = i)
       = (0 \<le> i \<and> i \<le> 99 \<and> [a, b] = spec_index_digits i)"
proof
  assume e: "((of_char a :: int) - 48) * 10 + of_char b - 48 = i"
  define x where "x = (of_char a :: int) - 48"
  define y where "y = (of_char b :: int) - 48"
  have x: "0 \<le> x" "x \<le> 9" and y: "0 \<le> y" "y \<le> 9" using a b by (simp_all add: x_def y_def)
  have i: "i = x * 10 + y" using e by (simp add: x_def y_def)
  have d: "i div 10 = x" and m: "i mod 10 = y" using x y unfolding i by simp_all
  have "char_of (48 + x) = a" unfolding x_def by simp
  moreover have "char_of (48 + y) = b" unfolding y_def by simp
  ultimately show "0 \<le> i \<and> i \<le> 99 \<and> [a, b] = spec_index_digits i"
    using x y i by (simp add: spec_index_digits_def d m)
next
  assume r: "0 \<le> i \<and> i \<le> 99 \<and> [a, b] = spec_index_digits i"
  then have ea: "a = char_of (48 + i div 10)" and eb: "b = char_of (48 + i mod 10)"
    by (simp_all add: spec_index_digits_def)
  from r have i0: "0 \<le> i" and i99: "i \<le> 99" by simp_all
  have "0 \<le> i div 10" "i div 10 \<le> 9" using i0 i99 by presburger+
  then have va: "(of_char a :: int) = 48 + i div 10" unfolding ea by (rule char_of_digit)
  have "0 \<le> i mod 10" "i mod 10 \<le> 9" using i0 i99 by presburger+
  then have vb: "(of_char b :: int) = 48 + i mod 10" unfolding eb by (rule char_of_digit)
  show "((of_char a :: int) - 48) * 10 + of_char b - 48 = i"
    unfolding va vb by simp
qed

lemma index_digits_are_digits:
  assumes "0 \<le> i" "i \<le> 99" "[a, b] = spec_index_digits i"
  shows "48 \<le> (of_char a :: int) \<and> (of_char a :: int) \<le> 57 \<and> 48 \<le> (of_char b :: int) \<and> (of_char b :: int) \<le> 57"
proof -
  from assms have ea: "a = char_of (48 + i div 10)" and eb: "b = char_of (48 + i mod 10)"
    by (simp_all add: spec_index_digits_def)
  have da: "0 \<le> i div 10" "i div 10 \<le> 9" using assms(1,2) by presburger+
  then have va: "(of_char a :: int) = 48 + i div 10" unfolding ea by (rule char_of_digit)
  have db: "0 \<le> i mod 10" "i mod 10 \<le> 9" using assms(1,2) by presburger+
  then have vb: "(of_char b :: int) = 48 + i mod 10" unfolding eb by (rule char_of_digit)
  show ?thesis unfolding va vb using da db by simp
qed

lemma drive_char_iff:
  "((schar c = 95 \<and> drive = 0)
     \<or> (66 \<le> schar c \<and> schar c \<le> 72 \<and> schar c - 65 = uint drive))
   = (spec_drive_of c = Some (uint (drive::byte)))"
proof (cases "(of_char c :: int) < 128")
  case True
  have us: "(of_char c = (95::int)) = (c = CHR ''_'')"
    using of_char_eq_iff [where ?'a = int, of c "CHR ''_''"] by simp
  have z: "(drive = 0) = (uint drive = 0)" by (simp add: uint_0_iff)
  show ?thesis
    using True us z by (auto simp: schar_def Let_def spec_drive_of_def)
next
  case False
  have ne: "c \<noteq> CHR ''_''" using False by auto
  show ?thesis
    using False ne schar_neg [OF False] by (auto simp: spec_drive_of_def schar_def Let_def)
qed

lemma isrequesteddiskfile_spec:
  "isrequesteddiskfile n drive index = spec_name_matches n (uint drive) (sint index)"
proof (cases n)
  case Nil
  then show ?thesis by (simp add: isrequesteddiskfile_def spec_name_matches_def cstr_at_def schar_def)
next
  case (Cons a n1)
  note n = Cons
  show ?thesis
  proof (cases n1)
    case Nil
    with n show ?thesis
      by (simp add: isrequesteddiskfile_def spec_name_matches_def cstr_at_def schar_def Let_def)
  next
    case (Cons b n2)
    note n1 = Cons
    show ?thesis
    proof (cases n2)
      case Nil
      with n n1 show ?thesis
        by (simp add: isrequesteddiskfile_def spec_name_matches_def cstr_at_def schar_def Let_def)
    next
      case (Cons c rest)
      have nn: "n = a # b # c # rest" using n n1 Cons by simp
      have at: "cstr_at n 0 = schar a" "cstr_at n 1 = schar b" "cstr_at n 2 = schar c"
        by (simp_all add: nn cstr_at_def)
      have tk: "take 2 n = [a, b]" "n ! 2 = c" "3 \<le> length n"
        by (simp_all add: nn)
      show ?thesis
      proof (cases "48 \<le> (of_char a :: int) \<and> (of_char a :: int) \<le> 57 \<and> 48 \<le> (of_char b :: int) \<and> (of_char b :: int) \<le> 57")
        case True
        then have sa: "schar a = of_char a" and sb: "schar b = of_char b"
          by (simp_all add: schar_ascii)
        have "isrequesteddiskfile n drive index =
            (((of_char a :: int) - 48) * 10 + of_char b - 48 = sint index \<and>
              ((schar c = 95 \<and> drive = 0)
               \<or> (66 \<le> schar c \<and> schar c \<le> 72 \<and> schar c - 65 = uint drive)))"
          unfolding isrequesteddiskfile_def at schar_lits sa sb using True by auto
        also have "\<dots> = (0 \<le> sint index \<and> sint index \<le> 99 \<and> [a, b] = spec_index_digits (sint index)
              \<and> spec_drive_of c = Some (uint drive))"
          using index_digits_iff [of a b "sint index"] True by (simp only: drive_char_iff) blast
        finally show ?thesis by (simp add: spec_name_matches_def tk)
      next
        case False
        have "\<not> isrequesteddiskfile n drive index"
          unfolding isrequesteddiskfile_def at schar_lits
          using False schar_digit [of a] schar_digit [of b] by auto
        moreover have "\<not> spec_name_matches n (uint drive) (sint index)"
          using False index_digits_are_digits [of "sint index" a b]
          by (auto simp: spec_name_matches_def tk)
        ultimately show ?thesis by simp
      qed
    qed
  qed
qed

lemma scan_root_find:
  "scan_root es drive index =
     map_option (\<lambda>e. ''ATARI/'' @ fst e) (find (\<lambda>e. isrequesteddiskfile (fst e) drive index) es)"
  by (induction es) simp_all

lemma find_map_of:
  "find (\<lambda>e. P (fst e)) es = Some (k, v) \<Longrightarrow> map_of es k = Some v"
proof (induction es)
  case Nil
  then show ?case by simp
next
  case (Cons e es)
  show ?case
  proof (cases "P (fst e)")
    case True
    with Cons.prems have "e = (k, v)" by simp
    then show ?thesis by simp
  next
    case False
    with Cons.prems have f: "find (\<lambda>e. P (fst e)) es = Some (k, v)" by simp
    then have "P k" unfolding find_Some_iff by (metis fst_conv)
    with False have "fst e \<noteq> k" by auto
    with Cons.IH [OF f] show ?thesis by (cases e) simp
  qed
qed

lemma open_rw_or_ro_entry:
  assumes "atari c = Some es" "map_of es nm = Some f"
  shows "open_rw_or_ro c (''ATARI/'' @ nm) = Some \<lparr>fname = nm, fpos = 0, fwrite = \<not> readonly f\<rparr>"
  using assms by (simp add: open_rw_or_ro_def SD_open_def file_seek_def)

lemma file_bytes_entry:
  assumes "atari c = Some es" "map_of es (fname h) = Some f"
  shows "file_bytes c h = contents f"
  using assms by (simp add: file_bytes_def)

text \<open>What a call that has to look for the file does.\<close>

lemma opendiskfile_search:
  assumes nomatch: "\<not> (case diskfile st of None \<Rightarrow> False | Some f \<Rightarrow> isrequesteddiskfile (fname f) drive index)"
      and init: "didinitsd st \<or> begin_ok (sd st)"
      and dir: "atari (sd st) = Some es"
  shows "opendiskfile drive index st =
     (case find (\<lambda>e. isrequesteddiskfile (fst e) drive index) es of
        None \<Rightarrow> closed_state st
      | Some (nm, f) \<Rightarrow>
          (case check_header (take 16 (contents f)) of
             None \<Rightarrow> closed_state st
           | Some n \<Rightarrow> st\<lparr>diskfile := Some \<lparr>fname = nm, fpos = 16, fwrite = \<not> readonly f\<rparr>,
                           didinitsd := True, disksize := n\<rparr>))"
proof (cases "find (\<lambda>e. isrequesteddiskfile (fst e) drive index) es")
  case None
  then show ?thesis
    using nomatch init dir
    by (auto simp: opendiskfile_def SD_begin_def scan_root_find closed_state_def Let_def)
next
  case (Some e)
  obtain nm f where e: "e = (nm, f)" by (cases e)
  have m: "map_of es nm = Some f" using Some e find_map_of [of "\<lambda>k. isrequesteddiskfile k drive index" es nm f] by simp
  let ?c = "sd st"
  let ?h = "\<lparr>fname = nm, fpos = 0, fwrite = \<not> readonly f\<rparr>"
  have op: "open_rw_or_ro ?c (''ATARI/'' @ nm) = Some ?h"
    using dir m by (rule open_rw_or_ro_entry)
  have fb: "file_bytes ?c ?h = contents f"
    using dir m by (simp add: file_bytes_def)
  have rd: "file_read ?c ?h 16 = (take 16 (contents f), ?h\<lparr>fpos := length (take 16 (contents f))\<rparr>)"
    by (simp add: file_read_def fb Let_def)
  show ?thesis
  proof (cases "check_header (take 16 (contents f))")
    case None
    then show ?thesis
      using nomatch init dir Some e op rd
      by (auto simp: opendiskfile_def SD_begin_def scan_root_find closed_state_def Let_def)
  next
    case (Some n)
    then have "length (take 16 (contents f)) = 16"
      by (auto simp: check_header_def split: if_splits)
    then show ?thesis
      using nomatch init dir \<open>find _ es = Some e\<close> e op rd Some
      by (auto simp: opendiskfile_def SD_begin_def scan_root_find Let_def)
  qed
qed

lemma opendiskfile_keep:
  "(case diskfile st of None \<Rightarrow> False | Some f \<Rightarrow> isrequesteddiskfile (fname f) drive index)
     \<Longrightarrow> opendiskfile drive index st = st"
  by (simp add: opendiskfile_def)

lemma opendiskfile_no_card:
  assumes "\<not> (case diskfile st of None \<Rightarrow> False | Some f \<Rightarrow> isrequesteddiskfile (fname f) drive index)"
      and "\<not> didinitsd st" "\<not> begin_ok (sd st)"
  shows "opendiskfile drive index st = st\<lparr>diskfile := None\<rparr>"
  using assms by (simp add: opendiskfile_def SD_begin_def Let_def)

lemma opendiskfile_no_dir:
  assumes "\<not> (case diskfile st of None \<Rightarrow> False | Some f \<Rightarrow> isrequesteddiskfile (fname f) drive index)"
      and "didinitsd st \<or> begin_ok (sd st)" "atari (sd st) = None"
  shows "opendiskfile drive index st = closed_state st"
  using assms by (auto simp: opendiskfile_def SD_begin_def Let_def closed_state_def)

lemma opendiskfile_frame:
  "sd (opendiskfile drive index st) = sd st
   \<and> sio_tx (opendiskfile drive index st) = sio_tx st
   \<and> sio_rx (opendiskfile drive index st) = sio_rx st
   \<and> cmdline (opendiskfile drive index st) = cmdline st"
  by (simp add: opendiskfile_def Let_def split: option.splits prod.splits)

lemma opendiskfile_inv:
  assumes "backend_inv st"
  shows "backend_inv (opendiskfile drive index st)"
proof (cases "case diskfile st of None \<Rightarrow> False | Some f \<Rightarrow> isrequesteddiskfile (fname f) drive index")
  case True
  then show ?thesis using assms by (simp add: opendiskfile_keep)
next
  case nomatch: False
  show ?thesis
  proof (cases "didinitsd st \<or> begin_ok (sd st)")
    case False
    then show ?thesis using nomatch by (simp add: opendiskfile_no_card backend_inv_def)
  next
    case init: True
    show ?thesis
    proof (cases "atari (sd st)")
      case None
      then show ?thesis using nomatch init
        by (simp add: opendiskfile_no_dir backend_inv_def closed_state_def)
    next
      case (Some es)
      note s = opendiskfile_search [OF nomatch init Some]
      show ?thesis
      proof (cases "find (\<lambda>e. isrequesteddiskfile (fst e) drive index) es")
        case None
        then show ?thesis by (simp add: s backend_inv_def closed_state_def)
      next
        case found: (Some e)
        obtain nm f where e: "e = (nm, f)" by (cases e)
        have m: "map_of es nm = Some f"
          using found e find_map_of [of "\<lambda>k. isrequesteddiskfile k drive index" es nm f] by simp
        show ?thesis
        proof (cases "check_header (take 16 (contents f))")
          case None
          then show ?thesis using found e by (simp add: s backend_inv_def closed_state_def)
        next
          case (Some n)
          from check_header_range [OF Some]
          have "spec_header_valid (take 16 (contents f))"
            and "uint n = spec_paragraphs (take 16 (contents f)) div 8" by simp_all
          then show ?thesis
            using found e Some \<open>atari (sd st) = Some es\<close> m
            by (simp add: s backend_inv_def file_bytes_def)
        qed
      qed
    qed
  qed
qed

lemma sector_offset: "unat (16 + ucast (sector::c_uint) * 128 :: c_ulong) = 16 + 128 * unat sector"
proof -
  have s: "uint sector < 65536" using uint_lt2p [of sector] by simp
  have c: "(ucast sector :: c_ulong) = word_of_int (uint sector)" by (simp only: ucast_eq)
  have "(16 + ucast sector * 128 :: c_ulong) = word_of_int (16 + uint sector * 128)"
    unfolding c by (simp only: wi_hom_syms word_of_int_numeral)
  then have "uint (16 + ucast sector * 128 :: c_ulong) = take_bit 32 (16 + uint sector * 128)"
    by (simp only: uint_word_of_int_eq) simp
  also have "\<dots> = 16 + uint sector * 128"
  proof (rule take_bit_int_eq_self)
    have "0 \<le> uint sector" by simp
    then show "0 \<le> 16 + uint sector * 128" by linarith
    show "16 + uint sector * 128 < 2 ^ 32" using s by simp
  qed
  finally have "uint (16 + ucast sector * 128 :: c_ulong) = 16 + uint sector * 128" .
  then have "int (unat (16 + ucast sector * 128 :: c_ulong)) = int (16 + 128 * unat sector)"
    by simp
  then show ?thesis by (simp only: of_nat_eq_iff)
qed

lemma file_bytes_fpos: "file_bytes c (f\<lparr>fpos := p\<rparr>) = file_bytes c f"
  by (simp add: file_bytes_def cong: option.case_cong)

lemma readsector_closed:
  "diskfile st = None \<or> sector \<ge> disksize st \<Longrightarrow> readsector sector st = (False, [], st)"
  by (auto simp: readsector_def split: option.splits)

lemma writesector_closed:
  "diskfile st = None \<or> sector \<ge> disksize st \<Longrightarrow> writesector sector data st = (False, st)"
  by (auto simp: writesector_def split: option.splits)

lemma readsector_open:
  assumes f: "diskfile st = Some f" and r: "sector < disksize st"
  shows "readsector sector st =
     (if 16 + 128 * unat sector \<le> length (file_bytes (sd st) f)
      then (16 + 128 * unat sector + 128 \<le> length (file_bytes (sd st) f),
            take 128 (drop (16 + 128 * unat sector) (file_bytes (sd st) f)),
            st\<lparr>diskfile := Some (f\<lparr>fpos := 16 + 128 * unat sector
                 + length (take 128 (drop (16 + 128 * unat sector) (file_bytes (sd st) f)))\<rparr>)\<rparr>)
      else (False, [], st))"
proof -
  have nr: "\<not> disksize st \<le> sector" using r by simp
  note fb = file_bytes_fpos
  show ?thesis
    using f nr
    by (auto simp: readsector_def file_seek_def file_read_def sector_offset fb Let_def)
qed

lemma writesector_open:
  assumes f: "diskfile st = Some f" and r: "sector < disksize st" and d: "length data = 128"
  shows "writesector sector data st =
     (if 16 + 128 * unat sector \<le> length (file_bytes (sd st) f)
      then (if fwrite f
            then (True, st\<lparr>diskfile := Some (f\<lparr>fpos := 16 + 128 * unat sector + 128\<rparr>),
                    sd := (sd st)\<lparr>atari := map_option (put_contents (fname f)
                       (take (16 + 128 * unat sector) (file_bytes (sd st) f) @ data @
                        drop (16 + 128 * unat sector + 128) (file_bytes (sd st) f))) (atari (sd st))\<rparr>\<rparr>)
            else (False, st\<lparr>diskfile := Some (f\<lparr>fpos := 16 + 128 * unat sector\<rparr>)\<rparr>))
      else (False, st))"
proof -
  have nr: "\<not> disksize st \<le> sector" using r by simp
  note fb = file_bytes_fpos
  show ?thesis
    using f nr d
    by (auto simp: writesector_def file_seek_def file_write_def sector_offset fb Let_def)
qed

lemma map_of_put_contents:
  "map_of (put_contents n bs es) k =
     (if k = n then map_option (\<lambda>x. x\<lparr>contents := bs\<rparr>) (map_of es n) else map_of es k)"
  by (induction es) auto

lemma file_bytes_written:
  assumes "file_bytes c f \<noteq> []"
  shows "file_bytes (c\<lparr>atari := map_option (put_contents (fname f) bs) (atari c)\<rparr>) f = bs"
  using assms by (auto simp: file_bytes_def map_of_put_contents split: option.splits)

lemma backend_inv_fields:
  "diskfile st' = diskfile st \<Longrightarrow> disksize st' = disksize st \<Longrightarrow> sd st' = sd st
     \<Longrightarrow> backend_inv st' = backend_inv st"
  by (simp add: backend_inv_def cong: option.case_cong)

lemma readsector_inv:
  assumes "backend_inv st"
  shows "backend_inv (snd (snd (readsector sector st)))"
proof (cases "diskfile st = None \<or> sector \<ge> disksize st")
  case True
  then show ?thesis using assms by (simp add: readsector_closed)
next
  case False
  then obtain f where f: "diskfile st = Some f" and r: "sector < disksize st" by auto
  note fb = file_bytes_fpos
  show ?thesis
    using assms f by (simp add: readsector_open [OF f r] backend_inv_def fb)
qed

lemma writesector_inv:
  assumes inv: "backend_inv st" and d: "length data = 128"
  shows "backend_inv (snd (writesector sector data st))"
proof (cases "diskfile st = None \<or> sector \<ge> disksize st")
  case True
  then show ?thesis using inv by (simp add: writesector_closed)
next
  case False
  then obtain f where f: "diskfile st = Some f" and r: "sector < disksize st" by auto
  let ?img = "file_bytes (sd st) f"
  let ?off = "16 + 128 * unat sector"
  note fb = file_bytes_fpos
  from inv f have v: "spec_header_valid (take 16 ?img)" by (simp add: backend_inv_def)
  then have ne: "?img \<noteq> []" by (auto simp: spec_header_valid_def)
  show ?thesis
  proof (cases "?off \<le> length ?img")
    case False
    then show ?thesis using inv by (simp add: writesector_open [OF f r d])
  next
    case True
    show ?thesis
    proof (cases "fwrite f")
      case False
      then show ?thesis
        using inv f True by (simp add: writesector_open [OF f r d] backend_inv_def fb)
    next
      case w: True
      let ?new = "take ?off ?img @ data @ drop (?off + 128) ?img"
      have "file_bytes ((sd st)\<lparr>atari := map_option (put_contents (fname f) ?new) (atari (sd st))\<rparr>) f = ?new"
        using ne by (rule file_bytes_written)
      moreover have "take 16 ?new = take 16 ?img" using True by simp
      ultimately show ?thesis
        using inv f True w by (simp add: writesector_open [OF f r d] backend_inv_def fb)
    qed
  qed
qed

lemma read_command_length:
  "read_command command ls rs = Some (command', ls', rs') \<Longrightarrow> length command \<le> 5
     \<Longrightarrow> length command' \<le> 5"
proof (induction ls arbitrary: command rs)
  case Nil
  then show ?case by (simp split: if_splits)
next
  case (Cons l ls)
  show ?case
  proof (cases "length command < 5 \<and> l = LOW")
    case False
    then show ?thesis using Cons.prems by (auto split: if_splits)
  next
    case True
    obtain r rs1 where sr: "SIO_read rs = (r, rs1)" by (cases "SIO_read rs")
    let ?c = "if r \<ge> 0 then command @ [word_of_int r] else command"
    have "read_command ?c ls rs1 = Some (command', ls', rs')"
      using Cons.prems(1) True sr by simp
    moreover have "length ?c \<le> 5" using True by simp
    ultimately show ?thesis by (rule Cons.IH)
  qed
qed

lemma capture_frame_state:
  assumes "capture_frame st = Some (command, st1)"
  shows "(\<exists>ls rs. st1 = st\<lparr>cmdline := ls, sio_rx := rs\<rparr>) \<and> length command \<le> 5"
proof -
  from assms obtain ls1 rs1 ls2 rs2 where
    rc: "read_command [] ls1 rs1 = Some (command, ls2, rs2)"
    by (auto simp: capture_frame_def split: option.splits if_splits)
  from read_command_length [OF rc] have "length command \<le> 5" by simp
  moreover have "st1 = st\<lparr>cmdline := cmdline st1, sio_rx := sio_rx st1\<rparr>"
    using assms by (auto simp: capture_frame_def split: option.splits if_splits)
  then have "\<exists>ls rs. st1 = st\<lparr>cmdline := ls, sio_rx := rs\<rparr>" by blast
  ultimately show ?thesis by simp
qed

lemma handlecommand_status_fields:
  "handlecommand_status st = st\<lparr>sio_tx := sio_tx (handlecommand_status st)\<rparr>"
  by (simp add: handlecommand_status_def sendwithchecksum_state SIO_write_def)

lemma handlecommand_status_inv: "backend_inv st \<Longrightarrow> backend_inv (handlecommand_status st)"
  using backend_inv_fields [of "handlecommand_status st" st]
  by (simp add: handlecommand_status_def sendwithchecksum_state SIO_write_def)

lemma handlecommand_read_inv:
  assumes "backend_inv st"
  shows "backend_inv (handlecommand_read sector st)"
proof -
  obtain ok data st1 where r: "readsector sector (setactivitylight st) = (ok, data, st1)"
    by (cases "readsector sector (setactivitylight st)")
  have "backend_inv (setactivitylight st)"
    using assms backend_inv_fields [of "setactivitylight st" st] by (simp add: setactivitylight_def)
  from readsector_inv [OF this, of sector] have i: "backend_inv st1" by (simp add: r)
  have "backend_inv (SIO_write b st1)" for b
    using i backend_inv_fields [of "SIO_write b st1" st1] by (simp add: SIO_write_def)
  moreover have "backend_inv (sendwithchecksum data (SIO_write b st1))" for b
    using i backend_inv_fields [of "sendwithchecksum data (SIO_write b st1)" st1]
    by (simp add: sendwithchecksum_state SIO_write_def)
  ultimately show ?thesis by (simp add: handlecommand_read_def r)
qed

lemma handlecommand_write_inv:
  assumes "backend_inv st" "handlecommand_write sector st = Some st'"
  shows "backend_inv st'"
proof -
  from assms(2) obtain data ok st1 where rc: "receivewithchecksum 128 st = Some (data, ok, st1)"
    by (auto simp: handlecommand_write_def split: option.splits)
  from receivewithchecksum_result [OF rc]
  have len: "length data = 128" and st1: "st1 = st\<lparr>sio_rx := sio_rx st1\<rparr>" by auto
  have "backend_inv (st\<lparr>sio_rx := sio_rx st1\<rparr>)"
    using assms(1) backend_inv_fields [of "st\<lparr>sio_rx := sio_rx st1\<rparr>" st] by simp
  then have i1: "backend_inv st1" by (subst st1)
  have w: "backend_inv (SIO_write b s)" if "backend_inv s" for b s
    using that backend_inv_fields [of "SIO_write b s" s] by (simp add: SIO_write_def)
  show ?thesis
  proof (cases ok)
    case False
    then show ?thesis using assms(2) rc w [OF i1] by (auto simp: handlecommand_write_def)
  next
    case True
    obtain wok st3 where ws: "writesector sector data (SIO_write 0x41 st1) = (wok, st3)"
      by (cases "writesector sector data (SIO_write 0x41 st1)")
    from writesector_inv [OF w [OF i1] len, where sector = sector and b1 = "0x41"] have "backend_inv st3"
      by (simp add: ws)
    then show ?thesis
      using assms(2) rc True ws w [of st3]
      by (auto simp: handlecommand_write_def Let_def split: if_splits)
  qed
qed

lemma dispatch_command_inv:
  assumes "backend_inv st" "dispatch_command command st = Some st'"
  shows "backend_inv st'"
proof -
  have w: "backend_inv (SIO_write b st)" for b
    using assms(1) backend_inv_fields [of "SIO_write b st" st] by (simp add: SIO_write_def)
  have o: "backend_inv (opendiskfile d i (SIO_write b st))" for d i b
    using w by (rule opendiskfile_inv)
  consider (c_status) "command ! 1 = 0x53" | (c_read) "command ! 1 = 0x52" | (c_write) "command ! 1 = 0x57"
    | (c_other) "command ! 1 \<noteq> 0x53" "command ! 1 \<noteq> 0x52" "command ! 1 \<noteq> 0x57" by blast
  then show ?thesis
  proof cases
    case c_status
    then show ?thesis
      using assms(2) handlecommand_status_inv [OF o] by (auto simp: dispatch_command_def Let_def)
  next
    case c_read
    then show ?thesis
      using assms(2) handlecommand_read_inv [OF o] by (auto simp: dispatch_command_def Let_def)
  next
    case c_write
    then have "handlecommand_write (decode_sector (command ! 2) (command ! 3))
        (opendiskfile (ucast (ucast (command ! 0) - 0x31 :: c_uint))
           (getdiskselectorvalue (SIO_write (of_char CHR ''A'') st)) (SIO_write (of_char CHR ''A'') st)) = Some st'"
      using assms(2) by (simp add: dispatch_command_def Let_def)
    with o show ?thesis by (rule handlecommand_write_inv)
  next
    case c_other
    then show ?thesis using assms(2) w by (auto simp: dispatch_command_def Let_def)
  qed
qed

lemma handle_sio_inv:
  assumes "backend_inv st" "handle_sio st = Some st'"
  shows "backend_inv st'"
proof -
  from assms(2) obtain command st1 where c: "capture_frame st = Some (command, st1)"
    by (auto simp: handle_sio_def split: option.splits)
  from capture_frame_state [OF c] obtain ls rs where st1: "st1 = st\<lparr>cmdline := ls, sio_rx := rs\<rparr>"
    by blast
  have i1: "backend_inv st1"
    unfolding st1 using assms(1) backend_inv_fields [of "st\<lparr>cmdline := ls, sio_rx := rs\<rparr>" st] by simp
  show ?thesis
    using assms(2) c i1 dispatch_command_inv [OF i1]
    by (auto simp: handle_sio_def split: if_splits)
qed

lemma boot_inv: "backend_inv (boot eeprom c ls rs)"
  by (simp add: backend_inv_def boot_def Let_def)

section \<open>Selecting and validating an image\<close>

lemma example_find:
  "find (\<lambda>e. isrequesteddiskfile (fst e) 0 7) (the (atari example_card)) = Some (''07_foo.dat'', small_image 0xAA)"
  "find (\<lambda>e. isrequesteddiskfile (fst e) 1 7) (the (atari example_card)) = Some (''07Bbar.dat'', small_image 0x55)"
  "find (\<lambda>e. isrequesteddiskfile (fst e) 0 12) (the (atari example_card)) = Some (''12_BIG.ATR'', big_image)"
  "find (\<lambda>e. isrequesteddiskfile (fst e) 2 7) (the (atari example_card)) = None"
  by (simp_all add: example_card_def isrequesteddiskfile_def cstr_at_def schar_def)

lemma example_headers:
  "check_header (take 16 (contents (small_image fill))) = Some 2"
  "check_header (take 16 (contents big_image)) = Some 1040"
  by (simp_all add: small_image_def big_image_def image_header_def check_header_def header_paragraphs_def)

lemma example_readonly: "readonly (small_image fill) = False" "readonly big_image = True"
  by (simp_all add: small_image_def big_image_def)

lemma example_open:
  assumes "sd st = example_card" "diskfile st = None"
  shows "opendiskfile 0 7 st =
           st\<lparr>diskfile := Some \<lparr>fname = ''07_foo.dat'', fpos = 16, fwrite = True\<rparr>,
              didinitsd := True, disksize := 2\<rparr>"
    and "opendiskfile 1 7 st =
           st\<lparr>diskfile := Some \<lparr>fname = ''07Bbar.dat'', fpos = 16, fwrite = True\<rparr>,
              didinitsd := True, disksize := 2\<rparr>"
    and "opendiskfile 0 12 st =
           st\<lparr>diskfile := Some \<lparr>fname = ''12_BIG.ATR'', fpos = 16, fwrite = False\<rparr>,
              didinitsd := True, disksize := 1040\<rparr>"
    and "opendiskfile 2 7 st = closed_state st"
proof -
  have a: "atari (sd st) = Some (the (atari example_card))"
    using assms by (simp add: example_card_def)
  have n: "\<not> (case diskfile st of None \<Rightarrow> False | Some f \<Rightarrow> isrequesteddiskfile (fname f) d i)" for d i
    using assms by simp
  have i: "didinitsd st \<or> begin_ok (sd st)"
    using assms by (simp add: example_card_def)
  show "opendiskfile 0 7 st =
           st\<lparr>diskfile := Some \<lparr>fname = ''07_foo.dat'', fpos = 16, fwrite = True\<rparr>,
              didinitsd := True, disksize := 2\<rparr>"
    by (simp add: opendiskfile_search [OF n i a] example_find example_headers example_readonly)
  show "opendiskfile 1 7 st =
           st\<lparr>diskfile := Some \<lparr>fname = ''07Bbar.dat'', fpos = 16, fwrite = True\<rparr>,
              didinitsd := True, disksize := 2\<rparr>"
    by (simp add: opendiskfile_search [OF n i a] example_find example_headers example_readonly)
  show "opendiskfile 0 12 st =
           st\<lparr>diskfile := Some \<lparr>fname = ''12_BIG.ATR'', fpos = 16, fwrite = False\<rparr>,
              didinitsd := True, disksize := 1040\<rparr>"
    by (simp add: opendiskfile_search [OF n i a] example_find example_headers example_readonly)
  show "opendiskfile 2 7 st = closed_state st"
    by (simp add: opendiskfile_search [OF n i a] example_find)
qed

lemma boot_fields:
  "sd (boot e c ls rs) = c" "diskfile (boot e c ls rs) = None" "sio_tx (boot e c ls rs) = []"
  "didinitsd (boot e c ls rs) = False" "cmdline (boot e c ls rs) = ls" "sio_rx (boot e c ls rs) = rs"
  by (simp_all add: boot_def Let_def)

lemma scan_root_spec:
  "scan_root es drive index =
     map_option (\<lambda>e. ''ATARI/'' @ fst e)
       (find (\<lambda>e. spec_name_matches (fst e) (uint drive) (sint index)) es)"
  by (simp add: scan_root_find isrequesteddiskfile_spec)

lemma opendiskfile_first_match:
  assumes nomatch: "\<not> (case diskfile st of None \<Rightarrow> False | Some h \<Rightarrow> isrequesteddiskfile (fname h) drive index)"
      and init: "didinitsd st \<or> begin_ok (sd st)"
      and dir: "atari (sd st) = Some es"
      and found: "find (\<lambda>e. spec_name_matches (fst e) (uint drive) (sint index)) es = Some (nm, f)"
      and valid: "spec_header_valid (take 16 (contents f))"
  shows "\<exists>h. diskfile (opendiskfile drive index st) = Some h \<and> fname h = nm
           \<and> file_bytes (sd (opendiskfile drive index st)) h = contents f"
proof -
  have fnd: "find (\<lambda>e. isrequesteddiskfile (fst e) drive index) es = Some (nm, f)"
    using found by (simp add: isrequesteddiskfile_spec)
  have m: "map_of es nm = Some f"
    using fnd find_map_of [of "\<lambda>k. isrequesteddiskfile k drive index" es nm f] by simp
  from valid obtain n where n: "check_header (take 16 (contents f)) = Some n"
    by (simp add: check_header_spec)
  have "opendiskfile drive index st =
      st\<lparr>diskfile := Some \<lparr>fname = nm, fpos = 16, fwrite = \<not> readonly f\<rparr>, didinitsd := True, disksize := n\<rparr>"
    by (simp add: opendiskfile_search [OF nomatch init dir] fnd n)
  then show ?thesis using dir m by (simp add: file_bytes_def)
qed

lemma opendiskfile_no_match:
  assumes nomatch: "\<not> (case diskfile st of None \<Rightarrow> False | Some h \<Rightarrow> isrequesteddiskfile (fname h) drive index)"
      and dir: "atari (sd st) = Some es"
      and nofile: "find (\<lambda>e. spec_name_matches (fst e) (uint drive) (sint index)) es = None"
  shows "\<not> diskavailable (opendiskfile drive index st)"
proof (cases "didinitsd st \<or> begin_ok (sd st)")
  case True
  have "find (\<lambda>e. isrequesteddiskfile (fst e) drive index) es = None"
    using nofile by (simp add: isrequesteddiskfile_spec)
  then show ?thesis
    by (simp add: opendiskfile_search [OF nomatch True dir] diskavailable_def closed_state_def)
next
  case False
  then show ?thesis using nomatch by (simp add: opendiskfile_no_card diskavailable_def)
qed

lemma opendiskfile_bad_header:
  assumes nomatch: "\<not> (case diskfile st of None \<Rightarrow> False | Some h \<Rightarrow> isrequesteddiskfile (fname h) drive index)"
      and dir: "atari (sd st) = Some es"
      and found: "find (\<lambda>e. spec_name_matches (fst e) (uint drive) (sint index)) es = Some (nm, f)"
      and invalid: "\<not> spec_header_valid (take 16 (contents f))"
  shows "\<not> diskavailable (opendiskfile drive index st)"
proof (cases "didinitsd st \<or> begin_ok (sd st)")
  case True
  have "find (\<lambda>e. isrequesteddiskfile (fst e) drive index) es = Some (nm, f)"
    using found by (simp add: isrequesteddiskfile_spec)
  moreover have "check_header (take 16 (contents f)) = None"
    using invalid by (simp add: check_header_spec)
  ultimately show ?thesis
    by (simp add: opendiskfile_search [OF nomatch True dir] diskavailable_def closed_state_def)
next
  case False
  then show ?thesis using nomatch by (simp add: opendiskfile_no_card diskavailable_def)
qed

lemma backend_inv_open:
  assumes "backend_inv st" "diskavailable st"
  shows "\<exists>f. diskfile st = Some f
     \<and> spec_header_valid (take 16 (file_bytes (sd st) f))
     \<and> uint (disksize st) = spec_paragraphs (take 16 (file_bytes (sd st) f)) div 8
     \<and> 1 \<le> uint (disksize st) \<and> uint (disksize st) \<le> 0xE000"
proof -
  from assms(2) obtain f where f: "diskfile st = Some f"
    by (auto simp: diskavailable_def split: option.splits)
  let ?h = "take 16 (file_bytes (sd st) f)"
  from assms(1) f have v: "spec_header_valid ?h" and n: "uint (disksize st) = spec_paragraphs ?h div 8"
    by (simp_all add: backend_inv_def)
  from v have "8 \<le> spec_paragraphs ?h" "spec_paragraphs ?h \<le> 0x70000"
    by (simp_all add: spec_header_valid_def)
  then have "1 \<le> spec_paragraphs ?h div 8" "spec_paragraphs ?h div 8 \<le> 0xE000" by simp_all
  with f v n show ?thesis by simp
qed

text \<open>
  C9. A name matches a requested (drive, index) pair exactly when the index is in 0..99,
  the name starts with the two decimal digits of the index and its third character is the
  drive character: \<open>_\<close> for drive 0, a letter \<open>B\<close>..\<open>H\<close> for drive (letter - \<open>A\<close>). The
  directory scan stops at the first matching entry, and that entry is the file opened
  (when its header is valid); without a matching entry no image is open. With
  \<^verbatim>\<open>07_foo.dat\<close> and \<^verbatim>\<open>07Bbar.dat\<close> on the card, (drive 0, index 7) opens the first and
  (drive 1, index 7) the second.
\<close>

theorem file_selection:
  "isrequesteddiskfile n drive index = spec_name_matches n (uint drive) (sint index)
   \<and> scan_root es drive index =
       map_option (\<lambda>e. ''ATARI/'' @ fst e)
         (find (\<lambda>e. spec_name_matches (fst e) (uint drive) (sint index)) es)
   \<and> (\<not> (case diskfile st of None \<Rightarrow> False | Some h \<Rightarrow> isrequesteddiskfile (fname h) drive index)
        \<and> (didinitsd st \<or> begin_ok (sd st)) \<and> atari (sd st) = Some es
        \<and> find (\<lambda>e. spec_name_matches (fst e) (uint drive) (sint index)) es = Some (nm, f)
        \<and> spec_header_valid (take 16 (contents f))
      \<longrightarrow> (\<exists>h. diskfile (opendiskfile drive index st) = Some h \<and> fname h = nm
                \<and> file_bytes (sd (opendiskfile drive index st)) h = contents f))
   \<and> (\<not> (case diskfile st of None \<Rightarrow> False | Some h \<Rightarrow> isrequesteddiskfile (fname h) drive index)
        \<and> atari (sd st) = Some es
        \<and> find (\<lambda>e. spec_name_matches (fst e) (uint drive) (sint index)) es = None
      \<longrightarrow> \<not> diskavailable (opendiskfile drive index st))
   \<and> map_option fname (diskfile (opendiskfile 0 7 (boot 7 example_card ls rs))) = Some ''07_foo.dat''
   \<and> map_option fname (diskfile (opendiskfile 1 7 (boot 7 example_card ls rs))) = Some ''07Bbar.dat''"
  using isrequesteddiskfile_spec [of n drive index] scan_root_spec [of es drive index]
    opendiskfile_first_match [where st = st and drive = drive and index = index and es = es and nm = nm and f = f]
    opendiskfile_no_match [where st = st and drive = drive and index = index and es = es]
  by (simp add: example_open boot_fields)

theorem file_selection_witness:
  "isrequesteddiskfile ''07Bbar.dat'' 1 7
   \<and> spec_name_matches ''07Bbar.dat'' 1 7
   \<and> \<not> isrequesteddiskfile ''07_foo.dat'' 1 7
   \<and> find (\<lambda>e. spec_name_matches (fst e) (uint (1::byte)) (sint (7::c_int))) (the (atari example_card))
        = Some (''07Bbar.dat'', small_image 0x55)
   \<and> spec_header_valid (take 16 (contents (small_image 0x55)))
   \<and> (\<exists>h. diskfile (opendiskfile 1 7 (boot 7 example_card [] [])) = Some h \<and> fname h = ''07Bbar.dat''
          \<and> file_bytes (sd (opendiskfile 1 7 (boot 7 example_card [] []))) h = contents (small_image 0x55))
   \<and> find (\<lambda>e. spec_name_matches (fst e) (uint (2::byte)) (sint (7::c_int))) (the (atari example_card)) = None
   \<and> \<not> diskavailable (opendiskfile 2 7 (boot 7 example_card [] []))"
proof -
  have m: "isrequesteddiskfile ''07Bbar.dat'' 1 7" "\<not> isrequesteddiskfile ''07_foo.dat'' 1 7"
    by (simp_all add: isrequesteddiskfile_def cstr_at_def schar_def)
  have f1: "find (\<lambda>e. spec_name_matches (fst e) (uint (1::byte)) (sint (7::c_int))) (the (atari example_card))
        = Some (''07Bbar.dat'', small_image 0x55)"
    using example_find(2) by (simp only: isrequesteddiskfile_spec)
  have f2: "find (\<lambda>e. spec_name_matches (fst e) (uint (2::byte)) (sint (7::c_int))) (the (atari example_card)) = None"
    using example_find(4) by (simp only: isrequesteddiskfile_spec)
  have v: "spec_header_valid (take 16 (contents (small_image 0x55)))"
    using example_headers(1) [of "0x55"] by (simp add: check_header_spec split: if_splits)
  have b: "\<not> (case diskfile (boot 7 example_card [] []) of None \<Rightarrow> False
              | Some h \<Rightarrow> isrequesteddiskfile (fname h) d i)" for d i
    by (simp add: boot_def)
  have i: "didinitsd (boot 7 example_card [] []) \<or> begin_ok (sd (boot 7 example_card [] []))"
    by (simp add: boot_def example_card_def)
  have a: "atari (sd (boot 7 example_card [] [])) = Some (the (atari example_card))"
    by (simp add: boot_def example_card_def)
  from file_selection [where n = "''07Bbar.dat''" and drive = 1 and index = 7
      and st = "boot 7 example_card [] []" and es = "the (atari example_card)"
      and nm = "''07Bbar.dat''" and f = "small_image 0x55"]
    file_selection [where n = "''07_foo.dat''" and drive = 2 and index = 7
      and st = "boot 7 example_card [] []" and es = "the (atari example_card)"]
    m f1 f2 v b i a
  show ?thesis by simp
qed

text \<open>
  C4. An image is open only if its 16-byte header is valid: this holds after start-up, is
  kept by \<^verbatim>\<open>opendiskfile\<close> and by every returning call of \<^verbatim>\<open>handle_sio\<close>, and while an
  image is open \<^verbatim>\<open>disksize\<close> is the paragraph count shifted right by 3, between 1 and
  0xE000. The header checks of the source accept exactly the valid headers (magic 0x96
  0x02, sector-size bytes 128 and 0, paragraph count \<open>(byte6<<16)|(byte3<<8)|byte2\<close> in
  \<open>[8, 0x70000]\<close>); a selected file whose header fails them leaves no image open. The
  example header with paragraph count 0x200 gives 64 sectors.
\<close>

theorem image_open_only_if_validated:
  "backend_inv (boot eeprom c ls rs)
   \<and> (backend_inv st \<longrightarrow> backend_inv (opendiskfile drive index st))
   \<and> (backend_inv st \<and> handle_sio st = Some st' \<longrightarrow> backend_inv st')
   \<and> (backend_inv st \<and> diskavailable st \<longrightarrow>
        (\<exists>f. diskfile st = Some f
           \<and> spec_header_valid (take 16 (file_bytes (sd st) f))
           \<and> uint (disksize st) = spec_paragraphs (take 16 (file_bytes (sd st) f)) div 8
           \<and> 1 \<le> uint (disksize st) \<and> uint (disksize st) \<le> 0xE000))
   \<and> check_header h = (if spec_header_valid h then Some (word_of_int (spec_paragraphs h div 8)) else None)
   \<and> (\<not> (case diskfile st of None \<Rightarrow> False | Some h \<Rightarrow> isrequesteddiskfile (fname h) drive index)
        \<and> atari (sd st) = Some es
        \<and> find (\<lambda>e. spec_name_matches (fst e) (uint drive) (sint index)) es = Some (nm, f)
        \<and> \<not> spec_header_valid (take 16 (contents f))
      \<longrightarrow> \<not> diskavailable (opendiskfile drive index st))
   \<and> check_header [0x96, 0x02, 0x00, 0x02, 0x80, 0x00, 0x00, 0, 0, 0, 0, 0, 0, 0, 0, 0] = Some 64"
proof -
  have ex: "check_header [0x96, 0x02, 0x00, 0x02, 0x80, 0x00, 0x00, 0, 0, 0, 0, 0, 0, 0, 0, 0] = Some 64"
    by (simp add: check_header_def header_paragraphs_def)
  show ?thesis
    using boot_inv [of eeprom c ls rs] opendiskfile_inv [where st = st and drive = drive and index = index]
      handle_sio_inv [of st st'] backend_inv_open [of st] check_header_spec [of h]
      opendiskfile_bad_header [where st = st and drive = drive and index = index and es = es and nm = nm and f = f] ex
    by blast
qed

lemma status_frame_capture:
  "capture_frame (status_frame_world c) = Some ([0x31, 0x53, 0, 0, 0x84], boot 7 c [] [])"
  by (simp add: capture_frame_def status_frame_world_def boot_def)

lemma status_frame_run:
  "handle_sio (status_frame_world c) =
     Some (handlecommand_status (opendiskfile 0 7 (SIO_write 0x41 (boot 7 c [] []))))"
proof -
  have ck: "spec_checksum [0x31, 0x53, 0, 0] = 0x84"
    by (simp add: spec_checksum_def spec_carry_def)
  have sel: "getdiskselectorvalue (SIO_write 0x41 (boot 7 c [] [])) = 7"
    by (simp add: getdiskselectorvalue_def boot_def SIO_write_def)
  show ?thesis
    by (simp add: handle_sio_frame [OF status_frame_capture] ck dispatch_status sel
        getdiskselectorvalue_def boot_def)
qed

theorem image_open_only_if_validated_witness:
  "backend_inv (boot 7 example_card [] [])
   \<and> backend_inv (opendiskfile 0 7 (boot 7 example_card [] []))
   \<and> diskavailable (opendiskfile 0 7 (boot 7 example_card [] []))
   \<and> (\<exists>f. diskfile (opendiskfile 0 7 (boot 7 example_card [] [])) = Some f
         \<and> spec_header_valid (take 16 (file_bytes example_card f))
         \<and> uint (disksize (opendiskfile 0 7 (boot 7 example_card [] []))) = 2)
   \<and> backend_inv (status_frame_world example_card)
   \<and> handle_sio (status_frame_world example_card) =
        Some (handlecommand_status (opendiskfile 0 7 (SIO_write 0x41 (boot 7 example_card [] []))))
   \<and> backend_inv (handlecommand_status (opendiskfile 0 7 (SIO_write 0x41 (boot 7 example_card [] []))))
   \<and> find (\<lambda>e. spec_name_matches (fst e) (uint (0::byte)) (sint (7::c_int))) (the (atari bad_card))
        = Some (''07_BAD.ATR'', \<lparr>contents = [0x96, 0x02, 0x10, 0x00, 0x00, 0x01, 0x00, 0, 0, 0, 0, 0, 0, 0, 0, 0], readonly = False\<rparr>)
   \<and> \<not> diskavailable (opendiskfile 0 7 (boot 7 bad_card [] []))"
proof -
  let ?b = "boot 7 example_card [] []"
  let ?bad = "\<lparr>contents = [0x96, 0x02, 0x10, 0x00, 0x00, 0x01, 0x00, 0, 0, 0, 0, 0, 0, 0, 0, 0 :: byte], readonly = False\<rparr>"
  have o: "opendiskfile 0 7 ?b =
      ?b\<lparr>diskfile := Some \<lparr>fname = ''07_foo.dat'', fpos = 16, fwrite = True\<rparr>, didinitsd := True, disksize := 2\<rparr>"
    by (rule example_open) (simp_all add: boot_fields)
  have av: "diskavailable (opendiskfile 0 7 ?b)" by (simp add: o diskavailable_def)
  have i0: "backend_inv ?b"
    using image_open_only_if_validated [where eeprom = 7 and c = example_card and ls = "[]" and rs = "[]"]
    by simp
  have i1: "backend_inv (opendiskfile 0 7 ?b)"
    using image_open_only_if_validated [where st = ?b and drive = 0 and index = 7] i0 by simp
  have i2: "\<exists>f. diskfile (opendiskfile 0 7 ?b) = Some f
         \<and> spec_header_valid (take 16 (file_bytes example_card f))
         \<and> uint (disksize (opendiskfile 0 7 ?b)) = 2"
    using image_open_only_if_validated [where st = "opendiskfile 0 7 ?b"] i1 av
    by (simp add: o boot_fields)
  have i3: "backend_inv (status_frame_world example_card)"
    unfolding status_frame_world_def
    using image_open_only_if_validated [where eeprom = 7 and c = example_card] by simp
  have i4: "backend_inv (handlecommand_status (opendiskfile 0 7 (SIO_write 0x41 ?b)))"
    using image_open_only_if_validated [where st = "status_frame_world example_card"
        and st' = "handlecommand_status (opendiskfile 0 7 (SIO_write 0x41 ?b))"]
      i3 status_frame_run [of example_card] by simp
  have fb: "find (\<lambda>e. spec_name_matches (fst e) (uint (0::byte)) (sint (7::c_int))) (the (atari bad_card))
        = Some (''07_BAD.ATR'', ?bad)"
  proof -
    have "find (\<lambda>e. isrequesteddiskfile (fst e) 0 7) (the (atari bad_card)) = Some (''07_BAD.ATR'', ?bad)"
      by (simp add: bad_card_def isrequesteddiskfile_def cstr_at_def schar_def)
    then show ?thesis by (simp only: isrequesteddiskfile_spec)
  qed
  have nv: "\<not> spec_header_valid (take 16 (contents ?bad))"
    by (simp add: spec_header_valid_def)
  have i5: "\<not> diskavailable (opendiskfile 0 7 (boot 7 bad_card [] []))"
    using image_open_only_if_validated [where st = "boot 7 bad_card [] []" and drive = 0 and index = 7
        and es = "the (atari bad_card)" and nm = "''07_BAD.ATR''" and f = ?bad] fb nv
    by (simp add: boot_fields bad_card_def)
  show ?thesis using i0 i1 av i2 i3 i4 fb i5 status_frame_run [of example_card] by simp
qed

section \<open>Sector access\<close>

text \<open>The status record on the example cards.\<close>

theorem status_record_of_backend_witness:
  "\<not> diskavailable (boot 7 no_card [] [])
   \<and> sio_tx (handlecommand_status (boot 7 no_card [] [])) = [0x43, 0x00, 0x80, 0xE0, 0x00, 0x61]
   \<and> diskavailable (opendiskfile 0 12 (boot 12 example_card [] []))
   \<and> uint (disksize (opendiskfile 0 12 (boot 12 example_card [] []))) = 1040
   \<and> sio_tx (handlecommand_status (opendiskfile 0 12 (boot 12 example_card [] [])))
        = [0x43, 0x90, 0x00, 0xE0, 0x00, 0x71]
   \<and> diskavailable (opendiskfile 0 7 (boot 7 example_card [] []))
   \<and> uint (disksize (opendiskfile 0 7 (boot 7 example_card [] []))) = 2
   \<and> sio_tx (handlecommand_status (opendiskfile 0 7 (boot 7 example_card [] [])))
        = [0x43, 0x10, 0x00, 0xE0, 0x00, 0xF0]"
proof -
  let ?n = "boot 7 no_card [] []"
  let ?big = "opendiskfile 0 12 (boot 12 example_card [] [])"
  let ?small = "opendiskfile 0 7 (boot 7 example_card [] [])"
  have ob: "?big = (boot 12 example_card [] [])\<lparr>diskfile := Some \<lparr>fname = ''12_BIG.ATR'', fpos = 16, fwrite = False\<rparr>,
              didinitsd := True, disksize := 1040\<rparr>"
    by (rule example_open) (simp_all add: boot_fields)
  have os: "?small = (boot 7 example_card [] [])\<lparr>diskfile := Some \<lparr>fname = ''07_foo.dat'', fpos = 16, fwrite = True\<rparr>,
              didinitsd := True, disksize := 2\<rparr>"
    by (rule example_open) (simp_all add: boot_fields)
  have c: "spec_checksum [0x90, 0x00, 0xE0, 0x00] = 0x71"
    "spec_checksum [0x10, 0x00, 0xE0, 0x00] = 0xF0"
    "spec_checksum [0x00, 0x80, 0xE0, 0x00] = 0x61"
    by (simp_all add: spec_checksum_def spec_carry_def)
  have a0: "\<not> diskavailable ?n" by (simp add: diskavailable_def boot_fields)
  have a1: "diskavailable ?big" "uint (disksize ?big) = 1040" by (simp_all add: ob diskavailable_def)
  have a2: "diskavailable ?small" "uint (disksize ?small) = 2" by (simp_all add: os diskavailable_def)
  have t0: "sio_tx (handlecommand_status ?n) = [0x43, 0x00, 0x80, 0xE0, 0x00, 0x61]"
  proof -
    from status_record_of_backend [of ?n] a0
    have r: "status_record ?n = [0x00, 0x80, 0xE0, 0x00]"
      and h: "handlecommand_status ?n = ?n\<lparr>sio_tx := sio_tx ?n @ [0x43] @ status_record ?n
              @ [word_of_int (spec_checksum (status_record ?n))]\<rparr>" by simp_all
    show ?thesis by (subst h) (simp add: r c boot_fields)
  qed
  have t1: "sio_tx (handlecommand_status ?big) = [0x43, 0x90, 0x00, 0xE0, 0x00, 0x71]"
  proof -
    from status_record_of_backend [of ?big] a1
    have r: "status_record ?big = [0x90, 0x00, 0xE0, 0x00]"
      and h: "handlecommand_status ?big = ?big\<lparr>sio_tx := sio_tx ?big @ [0x43] @ status_record ?big
              @ [word_of_int (spec_checksum (status_record ?big))]\<rparr>" by simp_all
    have "sio_tx ?big = []" by (simp add: ob boot_fields)
    then show ?thesis by (subst h) (simp add: r c)
  qed
  have t2: "sio_tx (handlecommand_status ?small) = [0x43, 0x10, 0x00, 0xE0, 0x00, 0xF0]"
  proof -
    from status_record_of_backend [of ?small] a2
    have r: "status_record ?small = [0x10, 0x00, 0xE0, 0x00]"
      and h: "handlecommand_status ?small = ?small\<lparr>sio_tx := sio_tx ?small @ [0x43] @ status_record ?small
              @ [word_of_int (spec_checksum (status_record ?small))]\<rparr>" by simp_all
    have "sio_tx ?small = []" by (simp add: os boot_fields)
    then show ?thesis by (subst h) (simp add: r c)
  qed
  show ?thesis using a0 a1 a2 t0 t1 t2 by simp
qed

lemma readsector_seek:
  assumes f: "diskfile st = Some f" and r: "sector < disksize st"
  shows "readsector sector st =
     (case file_seek (sd st) f (16 + ucast sector * 128) of
        None \<Rightarrow> (False, [], st)
      | Some f1 \<Rightarrow>
          (length (fst (file_read (sd st) f1 128)) = 128, fst (file_read (sd st) f1 128),
           st\<lparr>diskfile := Some (snd (file_read (sd st) f1 128))\<rparr>))"
proof -
  have nr: "\<not> disksize st \<le> sector" using r by simp
  show ?thesis
    using f nr by (simp add: readsector_def Let_def split: option.splits prod.splits)
qed

lemma writesector_seek:
  assumes f: "diskfile st = Some f" and r: "sector < disksize st" and d: "length data = 128"
  shows "writesector sector data st =
     (case file_seek (sd st) f (16 + ucast sector * 128) of
        None \<Rightarrow> (False, st)
      | Some f1 \<Rightarrow>
          (fst (file_write (sd st) f1 data) = 128,
           st\<lparr>diskfile := Some (fst (snd (file_write (sd st) f1 data))),
              sd := snd (snd (file_write (sd st) f1 data))\<rparr>))"
proof -
  have nr: "\<not> disksize st \<le> sector" using r by simp
  show ?thesis
    using f nr d by (simp add: writesector_def Let_def split: option.splits prod.splits)
qed

lemma readsector_short:
  assumes f: "diskfile st = Some f" and r: "sector < disksize st"
      and lo: "16 + 128 * unat sector \<le> length (file_bytes (sd st) f)"
      and hi: "length (file_bytes (sd st) f) < 16 + 128 * unat sector + 128"
  shows "readsector sector st =
     (False, drop (16 + 128 * unat sector) (file_bytes (sd st) f),
      st\<lparr>diskfile := Some (f\<lparr>fpos := length (file_bytes (sd st) f)\<rparr>)\<rparr>)"
proof -
  let ?fb = "file_bytes (sd st) f"
  let ?off = "16 + 128 * unat sector"
  have t: "take 128 (drop ?off ?fb) = drop ?off ?fb" using hi by simp
  have l: "?off + length (drop ?off ?fb) = length ?fb" using lo by simp
  have n: "\<not> ?off + 128 \<le> length ?fb" using hi by simp
  show ?thesis
    unfolding readsector_open [OF f r] t l using lo n by simp
qed

lemma handlecommand_read_tx:
  "sio_tx (handlecommand_read sector st) =
     (if fst (readsector sector st)
      then sio_tx st @ [0x43] @ fst (snd (readsector sector st))
             @ [word_of_int (spec_checksum (fst (snd (readsector sector st))))]
      else sio_tx st @ [0x45])"
proof -
  have eq: "readsector sector (setactivitylight st) =
      (fst (readsector sector st), fst (snd (readsector sector st)),
       setactivitylight (snd (snd (readsector sector st))))"
    by (simp add: readsector_def setactivitylight_def Let_def file_seek_def file_read_def
        split: option.splits)
  have tx: "sio_tx (snd (snd (readsector sector st))) = sio_tx st"
    by (simp add: readsector_def Let_def file_read_def split: option.splits)
  show ?thesis
    unfolding handlecommand_read_def eq
    by (simp add: sendwithchecksum_state SIO_write_def setactivitylight_def tx)
qed

lemma readsector_sd: "sd (snd (snd (readsector sector st))) = sd st"
  by (simp add: readsector_def Let_def file_read_def split: option.splits)

text \<open>
  C5. \<^verbatim>\<open>readsector\<close> and \<^verbatim>\<open>writesector\<close> are bounds-safe. With no image open, or with an
  index at or beyond \<^verbatim>\<open>disksize\<close>, both return false without transferring any data: the
  buffer, the file handle and the card are untouched; the same holds when the seek fails.
  With an image open, the index in range and the seek done, the result is true exactly
  when the driver moves 128 bytes, and whatever the driver has moved stays moved: the
  buffer holds the bytes the read returned and the handle is where the driver left it.
  In terms of the image file: a read returns true exactly when the file holds the whole
  sector at offset \<open>16 + 128*index\<close>, and then the buffer holds these 128 bytes; when the
  file ends inside the sector the read returns false after storing the bytes up to the end
  of the file in the buffer, with the handle at the end of the file. A write returns true
  exactly when the handle is writable and the offset is within the file. A read never
  changes the card, and a failed read puts only the error byte on the bus.
\<close>

theorem sector_access_bounds_safe:
  "(diskfile st = None \<or> disksize st \<le> sector \<longrightarrow>
      readsector sector st = (False, [], st) \<and> writesector sector data st = (False, st))
   \<and> (diskfile st = Some f \<and> sector < disksize st \<longrightarrow>
        (file_seek (sd st) f (16 + ucast sector * 128) = None \<longrightarrow>
           readsector sector st = (False, [], st) \<and> writesector sector data st = (False, st))
        \<and> (\<forall>f1. file_seek (sd st) f (16 + ucast sector * 128) = Some f1 \<longrightarrow>
              readsector sector st =
                (length (fst (file_read (sd st) f1 128)) = 128, fst (file_read (sd st) f1 128),
                 st\<lparr>diskfile := Some (snd (file_read (sd st) f1 128))\<rparr>)
              \<and> (length data = 128 \<longrightarrow>
                   writesector sector data st =
                     (fst (file_write (sd st) f1 data) = 128,
                      st\<lparr>diskfile := Some (fst (snd (file_write (sd st) f1 data))),
                         sd := snd (snd (file_write (sd st) f1 data))\<rparr>)))
        \<and> (fst (readsector sector st) \<longleftrightarrow>
              16 + 128 * unat sector + 128 \<le> length (file_bytes (sd st) f))
        \<and> (fst (readsector sector st) \<longrightarrow>
              fst (snd (readsector sector st))
                = take 128 (drop (16 + 128 * unat sector) (file_bytes (sd st) f))
              \<and> length (fst (snd (readsector sector st))) = 128)
        \<and> (16 + 128 * unat sector \<le> length (file_bytes (sd st) f)
             \<and> length (file_bytes (sd st) f) < 16 + 128 * unat sector + 128 \<longrightarrow>
              readsector sector st =
                (False, drop (16 + 128 * unat sector) (file_bytes (sd st) f),
                 st\<lparr>diskfile := Some (f\<lparr>fpos := length (file_bytes (sd st) f)\<rparr>)\<rparr>))
        \<and> (length data = 128 \<longrightarrow>
              (fst (writesector sector data st) \<longleftrightarrow>
                 fwrite f \<and> 16 + 128 * unat sector \<le> length (file_bytes (sd st) f))))
   \<and> sd (snd (snd (readsector sector st))) = sd st
   \<and> (\<not> fst (readsector sector st) \<longrightarrow>
        sio_tx (handlecommand_read sector st) = sio_tx st @ [0x45])"
proof -
  have closed: "diskfile st = None \<or> disksize st \<le> sector \<longrightarrow>
      readsector sector st = (False, [], st) \<and> writesector sector data st = (False, st)"
    using readsector_closed [of st sector] writesector_closed [of st sector data] by blast
  have opened: "diskfile st = Some f \<and> sector < disksize st \<longrightarrow>
        (file_seek (sd st) f (16 + ucast sector * 128) = None \<longrightarrow>
           readsector sector st = (False, [], st) \<and> writesector sector data st = (False, st))
        \<and> (\<forall>f1. file_seek (sd st) f (16 + ucast sector * 128) = Some f1 \<longrightarrow>
              readsector sector st =
                (length (fst (file_read (sd st) f1 128)) = 128, fst (file_read (sd st) f1 128),
                 st\<lparr>diskfile := Some (snd (file_read (sd st) f1 128))\<rparr>)
              \<and> (length data = 128 \<longrightarrow>
                   writesector sector data st =
                     (fst (file_write (sd st) f1 data) = 128,
                      st\<lparr>diskfile := Some (fst (snd (file_write (sd st) f1 data))),
                         sd := snd (snd (file_write (sd st) f1 data))\<rparr>)))
        \<and> (fst (readsector sector st) \<longleftrightarrow>
              16 + 128 * unat sector + 128 \<le> length (file_bytes (sd st) f))
        \<and> (fst (readsector sector st) \<longrightarrow>
              fst (snd (readsector sector st))
                = take 128 (drop (16 + 128 * unat sector) (file_bytes (sd st) f))
              \<and> length (fst (snd (readsector sector st))) = 128)
        \<and> (16 + 128 * unat sector \<le> length (file_bytes (sd st) f)
             \<and> length (file_bytes (sd st) f) < 16 + 128 * unat sector + 128 \<longrightarrow>
              readsector sector st =
                (False, drop (16 + 128 * unat sector) (file_bytes (sd st) f),
                 st\<lparr>diskfile := Some (f\<lparr>fpos := length (file_bytes (sd st) f)\<rparr>)\<rparr>))
        \<and> (length data = 128 \<longrightarrow>
              (fst (writesector sector data st) \<longleftrightarrow>
                 fwrite f \<and> 16 + 128 * unat sector \<le> length (file_bytes (sd st) f)))"
  proof (intro impI, elim conjE)
    assume f: "diskfile st = Some f" and r: "sector < disksize st"
    have nr: "\<not> disksize st \<le> sector" using r by simp
    have s0: "file_seek (sd st) f (16 + ucast sector * 128) = None \<longrightarrow>
           readsector sector st = (False, [], st) \<and> writesector sector data st = (False, st)"
      using f nr by (simp add: readsector_def writesector_def)
    have s1: "\<forall>f1. file_seek (sd st) f (16 + ucast sector * 128) = Some f1 \<longrightarrow>
              readsector sector st =
                (length (fst (file_read (sd st) f1 128)) = 128, fst (file_read (sd st) f1 128),
                 st\<lparr>diskfile := Some (snd (file_read (sd st) f1 128))\<rparr>)
              \<and> (length data = 128 \<longrightarrow>
                   writesector sector data st =
                     (fst (file_write (sd st) f1 data) = 128,
                      st\<lparr>diskfile := Some (fst (snd (file_write (sd st) f1 data))),
                         sd := snd (snd (file_write (sd st) f1 data))\<rparr>))"
      by (simp add: readsector_seek [OF f r] writesector_seek [OF f r])
    have r2: "fst (readsector sector st) \<longleftrightarrow>
              16 + 128 * unat sector + 128 \<le> length (file_bytes (sd st) f)"
      by (auto simp: readsector_open [OF f r])
    have r3: "fst (readsector sector st) \<longrightarrow>
              fst (snd (readsector sector st))
                = take 128 (drop (16 + 128 * unat sector) (file_bytes (sd st) f))
              \<and> length (fst (snd (readsector sector st))) = 128"
      by (auto simp: readsector_open [OF f r])
    have r4: "16 + 128 * unat sector \<le> length (file_bytes (sd st) f)
             \<and> length (file_bytes (sd st) f) < 16 + 128 * unat sector + 128 \<longrightarrow>
              readsector sector st =
                (False, drop (16 + 128 * unat sector) (file_bytes (sd st) f),
                 st\<lparr>diskfile := Some (f\<lparr>fpos := length (file_bytes (sd st) f)\<rparr>)\<rparr>)"
      using readsector_short [OF f r] by blast
    have w: "length data = 128 \<longrightarrow>
              (fst (writesector sector data st) \<longleftrightarrow>
                 fwrite f \<and> 16 + 128 * unat sector \<le> length (file_bytes (sd st) f))"
      by (simp add: writesector_open [OF f r])
    from s0 s1 r2 r3 r4 w show "(file_seek (sd st) f (16 + ucast sector * 128) = None \<longrightarrow>
           readsector sector st = (False, [], st) \<and> writesector sector data st = (False, st))
        \<and> (\<forall>f1. file_seek (sd st) f (16 + ucast sector * 128) = Some f1 \<longrightarrow>
              readsector sector st =
                (length (fst (file_read (sd st) f1 128)) = 128, fst (file_read (sd st) f1 128),
                 st\<lparr>diskfile := Some (snd (file_read (sd st) f1 128))\<rparr>)
              \<and> (length data = 128 \<longrightarrow>
                   writesector sector data st =
                     (fst (file_write (sd st) f1 data) = 128,
                      st\<lparr>diskfile := Some (fst (snd (file_write (sd st) f1 data))),
                         sd := snd (snd (file_write (sd st) f1 data))\<rparr>)))
        \<and> (fst (readsector sector st) \<longleftrightarrow>
              16 + 128 * unat sector + 128 \<le> length (file_bytes (sd st) f))
        \<and> (fst (readsector sector st) \<longrightarrow>
              fst (snd (readsector sector st))
                = take 128 (drop (16 + 128 * unat sector) (file_bytes (sd st) f))
              \<and> length (fst (snd (readsector sector st))) = 128)
        \<and> (16 + 128 * unat sector \<le> length (file_bytes (sd st) f)
             \<and> length (file_bytes (sd st) f) < 16 + 128 * unat sector + 128 \<longrightarrow>
              readsector sector st =
                (False, drop (16 + 128 * unat sector) (file_bytes (sd st) f),
                 st\<lparr>diskfile := Some (f\<lparr>fpos := length (file_bytes (sd st) f)\<rparr>)\<rparr>))
        \<and> (length data = 128 \<longrightarrow>
              (fst (writesector sector data st) \<longleftrightarrow>
                 fwrite f \<and> 16 + 128 * unat sector \<le> length (file_bytes (sd st) f)))"
      by blast
  qed
  have rtx: "\<not> fst (readsector sector st) \<longrightarrow>
        sio_tx (handlecommand_read sector st) = sio_tx st @ [0x45]"
    by (simp add: handlecommand_read_tx)
  from closed opened readsector_sd [of sector st] rtx show ?thesis by blast
qed

lemma small_world_eq:
  "small_world = (boot 7 example_card [] [])\<lparr>diskfile := Some \<lparr>fname = ''07_foo.dat'', fpos = 16, fwrite = True\<rparr>,
              didinitsd := True, disksize := 2\<rparr>"
  unfolding small_world_def by (rule example_open) (simp_all add: boot_fields)

lemma big_world_eq:
  "big_world = (boot 12 example_card [] [])\<lparr>diskfile := Some \<lparr>fname = ''12_BIG.ATR'', fpos = 16, fwrite = False\<rparr>,
              didinitsd := True, disksize := 1040\<rparr>"
  unfolding big_world_def by (rule example_open) (simp_all add: boot_fields)

lemma example_bytes:
  "file_bytes example_card \<lparr>fname = ''07_foo.dat'', fpos = p, fwrite = w\<rparr> = contents (small_image 0xAA)"
  "file_bytes example_card \<lparr>fname = ''12_BIG.ATR'', fpos = p, fwrite = w\<rparr> = contents big_image"
  by (simp_all add: file_bytes_def example_card_def)

lemma example_lengths:
  "length (contents (small_image fill)) = 272" "length (contents big_image) = 16"
  by (simp_all add: small_image_def big_image_def image_header_def)

lemma small_sector_1:
  "take 128 (drop 144 (contents (small_image 0xAA))) = replicate 128 0xAB"
  by (simp add: small_image_def image_header_def)

lemma cut_world_eq:
  "cut_world = (boot 7 cut_card [] [])\<lparr>diskfile := Some \<lparr>fname = ''07_cut.atr'', fpos = 16, fwrite = True\<rparr>,
              didinitsd := True, disksize := 2\<rparr>"
proof -
  let ?st = "boot 7 cut_card [] []"
  have a: "atari (sd ?st) = Some [(''07_cut.atr'', cut_image)]"
    by (simp add: boot_fields cut_card_def)
  have n: "\<not> (case diskfile ?st of None \<Rightarrow> False | Some f \<Rightarrow> isrequesteddiskfile (fname f) 0 7)"
    by (simp add: boot_fields)
  have i: "didinitsd ?st \<or> begin_ok (sd ?st)"
    by (simp add: boot_fields cut_card_def)
  have fnd: "isrequesteddiskfile ''07_cut.atr'' 0 7"
    by (simp add: isrequesteddiskfile_def cstr_at_def schar_def)
  have hd: "check_header (take 16 (contents cut_image)) = Some 2"
    by (simp add: cut_image_def image_header_def check_header_def header_paragraphs_def)
  have ro: "readonly cut_image = False" by (simp add: cut_image_def)
  show ?thesis
    unfolding cut_world_def by (simp add: opendiskfile_search [OF n i a] fnd hd ro)
qed

lemma cut_bytes:
  "file_bytes cut_card \<lparr>fname = ''07_cut.atr'', fpos = p, fwrite = w\<rparr> = contents cut_image"
  by (simp add: file_bytes_def cut_card_def)

lemma cut_length: "length (contents cut_image) = 194"
  by (simp add: cut_image_def image_header_def)

lemma cut_sector_1: "drop 144 (contents cut_image) = replicate 50 0xBB"
  by (simp add: cut_image_def image_header_def)

lemma cut_read:
  "readsector 1 cut_world =
     (False, replicate 50 0xBB,
      cut_world\<lparr>diskfile := Some \<lparr>fname = ''07_cut.atr'', fpos = 194, fwrite = True\<rparr>\<rparr>)"
proof -
  let ?f = "\<lparr>fname = ''07_cut.atr'', fpos = 16, fwrite = True\<rparr>"
  have s: "diskfile cut_world = Some ?f" "disksize cut_world = 2" "sd cut_world = cut_card"
    by (simp_all add: cut_world_eq boot_fields)
  have r: "(1 :: c_uint) < disksize cut_world" by (simp add: s)
  show ?thesis
    by (simp add: readsector_open [OF s(1) r] s cut_bytes cut_length cut_sector_1)
qed

theorem sector_access_bounds_safe_witness:
  "readsector 2 small_world = (False, [], small_world)
   \<and> writesector 2 (replicate 128 7) small_world = (False, small_world)
   \<and> fst (readsector 1 small_world)
   \<and> fst (snd (readsector 1 small_world)) = replicate 128 0xAB
   \<and> fst (writesector 1 (replicate 128 7) small_world)
   \<and> readsector 1 cut_world =
       (False, replicate 50 0xBB,
        cut_world\<lparr>diskfile := Some \<lparr>fname = ''07_cut.atr'', fpos = 194, fwrite = True\<rparr>\<rparr>)
   \<and> sio_tx (handlecommand_read 1 cut_world) = [0x45]
   \<and> readsector 0 big_world =
       (False, [], big_world\<lparr>diskfile := Some \<lparr>fname = ''12_BIG.ATR'', fpos = 16, fwrite = False\<rparr>\<rparr>)
   \<and> \<not> fst (writesector 0 (replicate 128 7) big_world)"
proof -
  let ?d = "replicate 128 (7::byte)"
  let ?fs = "\<lparr>fname = ''07_foo.dat'', fpos = 16, fwrite = True\<rparr>"
  let ?fb = "\<lparr>fname = ''12_BIG.ATR'', fpos = 16, fwrite = False\<rparr>"
  let ?fc = "\<lparr>fname = ''07_cut.atr'', fpos = 16, fwrite = True\<rparr>"
  have s: "diskfile small_world = Some ?fs" "disksize small_world = 2" "sd small_world = example_card"
    by (simp_all add: small_world_eq boot_fields)
  have b: "diskfile big_world = Some ?fb" "disksize big_world = 1040" "sd big_world = example_card"
    "sio_tx big_world = []"
    by (simp_all add: big_world_eq boot_fields)
  have c: "diskfile cut_world = Some ?fc" "disksize cut_world = 2" "sd cut_world = cut_card"
    "sio_tx cut_world = []"
    by (simp_all add: cut_world_eq boot_fields)
  have w1: "readsector 2 small_world = (False, [], small_world)
      \<and> writesector 2 ?d small_world = (False, small_world)"
    using sector_access_bounds_safe [where st = small_world and sector = 2 and data = ?d] s by simp
  have w2: "fst (readsector 1 small_world)
      \<and> fst (snd (readsector 1 small_world)) = replicate 128 0xAB
      \<and> fst (writesector 1 ?d small_world)"
    using sector_access_bounds_safe [where st = small_world and sector = 1 and data = ?d and f = ?fs] s
    by (auto simp: example_bytes example_lengths small_sector_1)
  have w3: "readsector 1 cut_world = (False, replicate 50 0xBB, cut_world\<lparr>diskfile := Some (?fc\<lparr>fpos := 194\<rparr>)\<rparr>)"
    using sector_access_bounds_safe [where st = cut_world and sector = 1 and data = ?d and f = ?fc] c
    by (simp add: cut_bytes cut_length cut_sector_1)
  have w4: "sio_tx (handlecommand_read 1 cut_world) = [0x45]"
    using sector_access_bounds_safe [where st = cut_world and sector = 1 and data = ?d and f = ?fc] w3 c by simp
  have w5: "readsector 0 big_world = (False, [], big_world\<lparr>diskfile := Some (?fb\<lparr>fpos := 16\<rparr>)\<rparr>)
      \<and> \<not> fst (writesector 0 ?d big_world)"
    using sector_access_bounds_safe [where st = big_world and sector = 0 and data = ?d and f = ?fb] b
    by (simp add: example_bytes example_lengths)
  from w1 w2 w3 w4 w5 show ?thesis by simp
qed

text \<open>
  Returning false does not mean that no data has moved. On the image that ends 50 bytes
  into sector 1, reading sector 1 returns false after 50 bytes have been stored in the
  buffer and the file position has advanced from 16 to 194.
\<close>

theorem sector_access_short_read_counterexample:
  "diskfile cut_world = Some \<lparr>fname = ''07_cut.atr'', fpos = 16, fwrite = True\<rparr>
   \<and> disksize cut_world = 2
   \<and> readsector 1 cut_world =
       (False, replicate 50 0xBB,
        cut_world\<lparr>diskfile := Some \<lparr>fname = ''07_cut.atr'', fpos = 194, fwrite = True\<rparr>\<rparr>)
   \<and> fst (snd (readsector 1 cut_world)) \<noteq> []
   \<and> snd (snd (readsector 1 cut_world)) \<noteq> cut_world"
proof -
  have s: "diskfile cut_world = Some \<lparr>fname = ''07_cut.atr'', fpos = 16, fwrite = True\<rparr>"
    "disksize cut_world = 2"
    by (simp_all add: cut_world_eq boot_fields)
  have d: "diskfile (snd (snd (readsector 1 cut_world))) \<noteq> diskfile cut_world"
    by (simp add: cut_read s)
  then have "snd (snd (readsector 1 cut_world)) \<noteq> cut_world" by auto
  moreover have "fst (snd (readsector 1 cut_world)) \<noteq> []" by (simp add: cut_read)
  ultimately show ?thesis using s cut_read by simp
qed

section \<open>The write handler and sector number zero\<close>

lemma writesector_frame:
  "sio_tx (snd (writesector sector data st)) = sio_tx st
   \<and> sio_rx (snd (writesector sector data st)) = sio_rx st
   \<and> cmdline (snd (writesector sector data st)) = cmdline st"
  by (simp add: writesector_def Let_def split: option.splits prod.splits)

lemma receivewithchecksum_state:
  assumes "receivewithchecksum len st = Some (data, ok, st1)"
  shows "\<exists>rs. st1 = st\<lparr>sio_rx := rs\<rparr>"
  using assms by (auto simp: receivewithchecksum_def split: option.splits)

lemma handlecommand_write_blocked:
  "receivewithchecksum 128 st = None \<Longrightarrow> handlecommand_write sector st = None"
  by (simp add: handlecommand_write_def)

lemma handlecommand_write_bad:
  assumes "receivewithchecksum 128 st = Some (data, False, st1)"
  shows "handlecommand_write sector st = Some (st\<lparr>sio_rx := sio_rx st1, sio_tx := sio_tx st @ [0x45]\<rparr>)"
proof -
  from receivewithchecksum_state [OF assms] obtain rs where st1: "st1 = st\<lparr>sio_rx := rs\<rparr>" by blast
  show ?thesis using assms unfolding st1 by (simp add: handlecommand_write_def SIO_write_def)
qed

lemma handlecommand_write_good:
  assumes "receivewithchecksum 128 st = Some (data, True, st1)"
      and "writesector sector data (st\<lparr>sio_rx := sio_rx st1, sio_tx := sio_tx st @ [0x41]\<rparr>) = (wok, st3)"
  shows "handlecommand_write sector st =
           Some (st3\<lparr>sio_tx := sio_tx st @ [0x41, if wok then 0x43 else 0x45]\<rparr>)"
proof -
  from receivewithchecksum_state [OF assms(1)] obtain rs where st1: "st1 = st\<lparr>sio_rx := rs\<rparr>" by blast
  have w: "writesector sector data (SIO_write 0x41 (st\<lparr>sio_rx := rs\<rparr>)) = (wok, st3)"
    using assms(2) unfolding st1 by (simp add: SIO_write_def)
  have tx: "sio_tx st3 = sio_tx st @ [0x41]"
    using writesector_frame [of sector data "SIO_write 0x41 (st\<lparr>sio_rx := rs\<rparr>)"] w
    by (simp add: SIO_write_def)
  show ?thesis
    using assms(1) w tx unfolding st1 by (simp add: handlecommand_write_def SIO_write_def)
qed

text \<open>
  C7. WRITE is atomic on a data-checksum failure. When the 128 data bytes and the check
  byte have arrived and the check byte is not the checksum of the data, the handler sends
  exactly one byte, \<open>E\<close>, and nothing else changes but the consumed input: the card
  and the file handle are as before, so \<^verbatim>\<open>writesector\<close> has not run. When the checksum is
  right it sends \<open>A\<close>, runs \<^verbatim>\<open>writesector\<close> on the received data and then sends
  \<open>C\<close> if that returned true and \<open>E\<close> if not. Until the 129 bytes have arrived the
  handler does not return.
\<close>

theorem write_atomic_on_checksum_failure:
  "(receivewithchecksum 128 st = None \<longrightarrow> handlecommand_write sector st = None)
   \<and> (receivewithchecksum 128 st = Some (data, ok, st1) \<longrightarrow>
        length data = 128
        \<and> (\<exists>rs check. receive_loop 128 [] 0 (sio_rx st) = Some (data, sum_loop 0 data, rs)
              \<and> receivebyte rs = Some (check, sio_rx st1)
              \<and> ok = (uint check = spec_checksum data))
        \<and> (\<not> ok \<longrightarrow>
              handlecommand_write sector st =
                Some (st\<lparr>sio_rx := sio_rx st1, sio_tx := sio_tx st @ [0x45]\<rparr>))
        \<and> (ok \<longrightarrow>
              (\<exists>wok st3.
                 writesector sector data (st\<lparr>sio_rx := sio_rx st1, sio_tx := sio_tx st @ [0x41]\<rparr>)
                   = (wok, st3)
                 \<and> handlecommand_write sector st =
                     Some (st3\<lparr>sio_tx := sio_tx st @ [0x41, if wok then 0x43 else 0x45]\<rparr>))))"
proof -
  have blocked: "receivewithchecksum 128 st = None \<longrightarrow> handlecommand_write sector st = None"
    by (simp add: handlecommand_write_blocked)
  have arrived: "receivewithchecksum 128 st = Some (data, ok, st1) \<longrightarrow>
        length data = 128
        \<and> (\<exists>rs check. receive_loop 128 [] 0 (sio_rx st) = Some (data, sum_loop 0 data, rs)
              \<and> receivebyte rs = Some (check, sio_rx st1)
              \<and> ok = (uint check = spec_checksum data))
        \<and> (\<not> ok \<longrightarrow>
              handlecommand_write sector st =
                Some (st\<lparr>sio_rx := sio_rx st1, sio_tx := sio_tx st @ [0x45]\<rparr>))
        \<and> (ok \<longrightarrow>
              (\<exists>wok st3.
                 writesector sector data (st\<lparr>sio_rx := sio_rx st1, sio_tx := sio_tx st @ [0x41]\<rparr>)
                   = (wok, st3)
                 \<and> handlecommand_write sector st =
                     Some (st3\<lparr>sio_tx := sio_tx st @ [0x41, if wok then 0x43 else 0x45]\<rparr>)))"
  proof
    assume rc: "receivewithchecksum 128 st = Some (data, ok, st1)"
    from receivewithchecksum_result [OF rc]
    have len: "length data = 128"
      and chk: "\<exists>rs check. receive_loop 128 [] 0 (sio_rx st) = Some (data, sum_loop 0 data, rs)
              \<and> receivebyte rs = Some (check, sio_rx st1)
              \<and> ok = (uint check = spec_checksum data)"
      by auto
    have bad: "\<not> ok \<longrightarrow> handlecommand_write sector st =
                Some (st\<lparr>sio_rx := sio_rx st1, sio_tx := sio_tx st @ [0x45]\<rparr>)"
      using rc handlecommand_write_bad [of st data st1 sector] by simp
    have good: "ok \<longrightarrow>
              (\<exists>wok st3.
                 writesector sector data (st\<lparr>sio_rx := sio_rx st1, sio_tx := sio_tx st @ [0x41]\<rparr>)
                   = (wok, st3)
                 \<and> handlecommand_write sector st =
                     Some (st3\<lparr>sio_tx := sio_tx st @ [0x41, if wok then 0x43 else 0x45]\<rparr>))"
    proof
      assume ok
      obtain wok st3 where w:
        "writesector sector data (st\<lparr>sio_rx := sio_rx st1, sio_tx := sio_tx st @ [0x41]\<rparr>) = (wok, st3)"
        by (cases "writesector sector data (st\<lparr>sio_rx := sio_rx st1, sio_tx := sio_tx st @ [0x41]\<rparr>)")
      from rc \<open>ok\<close> have "receivewithchecksum 128 st = Some (data, True, st1)" by simp
      from handlecommand_write_good [OF this w] w
      show "\<exists>wok st3.
                 writesector sector data (st\<lparr>sio_rx := sio_rx st1, sio_tx := sio_tx st @ [0x41]\<rparr>)
                   = (wok, st3)
                 \<and> handlecommand_write sector st =
                     Some (st3\<lparr>sio_tx := sio_tx st @ [0x41, if wok then 0x43 else 0x45]\<rparr>)"
        by blast
    qed
    from len chk bad good show "length data = 128
        \<and> (\<exists>rs check. receive_loop 128 [] 0 (sio_rx st) = Some (data, sum_loop 0 data, rs)
              \<and> receivebyte rs = Some (check, sio_rx st1)
              \<and> ok = (uint check = spec_checksum data))
        \<and> (\<not> ok \<longrightarrow>
              handlecommand_write sector st =
                Some (st\<lparr>sio_rx := sio_rx st1, sio_tx := sio_tx st @ [0x45]\<rparr>))
        \<and> (ok \<longrightarrow>
              (\<exists>wok st3.
                 writesector sector data (st\<lparr>sio_rx := sio_rx st1, sio_tx := sio_tx st @ [0x41]\<rparr>)
                   = (wok, st3)
                 \<and> handlecommand_write sector st =
                     Some (st3\<lparr>sio_tx := sio_tx st @ [0x41, if wok then 0x43 else 0x45]\<rparr>)))"
      by blast
  qed
  from blocked arrived show ?thesis by blast
qed

lemma add_carry_zero: "add_carry 0 0 = 0"
  by (simp add: add_carry_def word_sle_eq)

lemma sum_loop_zeros: "sum_loop 0 (replicate n 0) = 0"
  by (induction n) (simp_all add: add_carry_zero)

lemma receive_zeros:
  "receivewithchecksum 128 (st\<lparr>sio_rx := replicate 128 0 @ [uint (c::byte)]\<rparr>)
     = Some (replicate 128 0, c = 0, st\<lparr>sio_rx := []\<rparr>)"
proof -
  have "receivewithchecksum (int (length (replicate 128 (0::byte))))
          (st\<lparr>sio_rx := map uint (replicate 128 (0::byte)) @ uint c # []\<rparr>)
        = Some (replicate 128 0, ucast c = sum_loop 0 (replicate 128 0), st\<lparr>sio_rx := []\<rparr>)"
    by (rule receivewithchecksum_bytes)
  moreover have "(ucast c = (0::c_int)) = (c = 0)"
  proof -
    have "(ucast c = (0::c_int)) = (uint (ucast c :: c_int) = uint (0::c_int))"
      by (simp only: word_uint_eq_iff)
    also have "\<dots> = (uint c = 0)" by (simp only: ucast_byte_uint16 uint_0_eq)
    also have "\<dots> = (c = 0)" by (simp only: uint_0_iff)
    finally show ?thesis .
  qed
  ultimately show ?thesis by (simp add: sum_loop_zeros)
qed

lemma receive_loop_silent: "0 < n \<Longrightarrow> receive_loop n data s [] = None"
  by (cases n) simp_all

lemma receive_silent: "receivewithchecksum 128 (st\<lparr>sio_rx := []\<rparr>) = None"
  by (simp add: receivewithchecksum_def receive_loop_silent)

lemma small_world_write:
  "\<exists>st3. writesector 1 (replicate 128 0) (small_world\<lparr>sio_rx := [], sio_tx := [0x41]\<rparr>) = (True, st3)
     \<and> file_bytes (sd st3) \<lparr>fname = ''07_foo.dat'', fpos = 16, fwrite = True\<rparr>
         = image_header 0x10 0x00 @ replicate 128 0xAA @ replicate 128 0"
proof -
  let ?st = "small_world\<lparr>sio_rx := [], sio_tx := [0x41]\<rparr>"
  let ?f = "\<lparr>fname = ''07_foo.dat'', fpos = 16, fwrite = True\<rparr>"
  let ?d = "replicate 128 (0::byte)"
  have f: "diskfile ?st = Some ?f" by (simp add: small_world_eq)
  have r: "1 < disksize ?st" by (simp add: small_world_eq)
  have d: "length ?d = 128" by simp
  have c: "sd ?st = example_card" by (simp add: small_world_eq boot_fields)
  have fb: "file_bytes example_card ?f = contents (small_image 0xAA)" by (rule example_bytes)
  let ?new = "take (16 + 128 * unat (1::c_uint)) (contents (small_image 0xAA)) @ ?d
      @ drop (16 + 128 * unat (1::c_uint) + 128) (contents (small_image 0xAA))"
  have new: "?new = image_header 0x10 0x00 @ replicate 128 0xAA @ replicate 128 0"
    by (simp add: small_image_def image_header_def)
  have ne: "file_bytes example_card ?f \<noteq> []" by (simp add: fb small_image_def image_header_def)
  have w: "writesector 1 ?d ?st =
      (True, ?st\<lparr>diskfile := Some (?f\<lparr>fpos := 16 + 128 * unat (1::c_uint) + 128\<rparr>),
                 sd := example_card\<lparr>atari := map_option (put_contents (fname ?f) ?new) (atari example_card)\<rparr>\<rparr>)"
    unfolding writesector_open [OF f r d] c fb by (simp add: example_lengths)
  have "file_bytes (example_card\<lparr>atari := map_option (put_contents (fname ?f) ?new) (atari example_card)\<rparr>) ?f = ?new"
    using ne by (rule file_bytes_written)
  then show ?thesis unfolding w new by simp
qed

theorem write_atomic_on_checksum_failure_witness:
  "receivewithchecksum 128 (small_world\<lparr>sio_rx := replicate 128 0 @ [5]\<rparr>)
     = Some (replicate 128 0, False, small_world\<lparr>sio_rx := []\<rparr>)
   \<and> handlecommand_write 1 (small_world\<lparr>sio_rx := replicate 128 0 @ [5]\<rparr>)
       = Some (small_world\<lparr>sio_rx := [], sio_tx := [0x45]\<rparr>)
   \<and> receivewithchecksum 128 (small_world\<lparr>sio_rx := replicate 128 0 @ [0]\<rparr>)
     = Some (replicate 128 0, True, small_world\<lparr>sio_rx := []\<rparr>)
   \<and> (\<exists>st3. writesector 1 (replicate 128 0) (small_world\<lparr>sio_rx := [], sio_tx := [0x41]\<rparr>) = (True, st3)
         \<and> file_bytes (sd st3) \<lparr>fname = ''07_foo.dat'', fpos = 16, fwrite = True\<rparr>
             = image_header 0x10 0x00 @ replicate 128 0xAA @ replicate 128 0
         \<and> handlecommand_write 1 (small_world\<lparr>sio_rx := replicate 128 0 @ [0]\<rparr>)
             = Some (st3\<lparr>sio_tx := [0x41, 0x43]\<rparr>))
   \<and> handlecommand_write 1 (small_world\<lparr>sio_rx := []\<rparr>) = None"
proof -
  have tx: "sio_tx small_world = []" by (simp add: small_world_eq boot_fields)
  have r1: "receivewithchecksum 128 (small_world\<lparr>sio_rx := replicate 128 0 @ [5]\<rparr>)
     = Some (replicate 128 0, False, small_world\<lparr>sio_rx := []\<rparr>)"
    using receive_zeros [where st = small_world and c = 5] by simp
  have r2: "receivewithchecksum 128 (small_world\<lparr>sio_rx := replicate 128 0 @ [0]\<rparr>)
     = Some (replicate 128 0, True, small_world\<lparr>sio_rx := []\<rparr>)"
    using receive_zeros [where st = small_world and c = 0] by simp
  have r3: "receivewithchecksum 128 (small_world\<lparr>sio_rx := []\<rparr>) = None"
    by (rule receive_silent)
  have w1: "handlecommand_write 1 (small_world\<lparr>sio_rx := replicate 128 0 @ [5]\<rparr>)
       = Some (small_world\<lparr>sio_rx := [], sio_tx := [0x45]\<rparr>)"
    using write_atomic_on_checksum_failure [where st = "small_world\<lparr>sio_rx := replicate 128 0 @ [5]\<rparr>"
        and data = "replicate 128 0" and ok = False and ?st1.0 = "small_world\<lparr>sio_rx := []\<rparr>" and sector = 1]
      r1 tx by simp
  have w2: "\<exists>wok st3. writesector 1 (replicate 128 0) (small_world\<lparr>sio_rx := [], sio_tx := [0x41]\<rparr>) = (wok, st3)
         \<and> handlecommand_write 1 (small_world\<lparr>sio_rx := replicate 128 0 @ [0]\<rparr>)
             = Some (st3\<lparr>sio_tx := [0x41, if wok then 0x43 else 0x45]\<rparr>)"
    using write_atomic_on_checksum_failure [where st = "small_world\<lparr>sio_rx := replicate 128 0 @ [0]\<rparr>"
        and data = "replicate 128 0" and ok = True and ?st1.0 = "small_world\<lparr>sio_rx := []\<rparr>" and sector = 1]
      r2 tx by simp
  have w2': "\<exists>st3. writesector 1 (replicate 128 0) (small_world\<lparr>sio_rx := [], sio_tx := [0x41]\<rparr>) = (True, st3)
         \<and> file_bytes (sd st3) \<lparr>fname = ''07_foo.dat'', fpos = 16, fwrite = True\<rparr>
             = image_header 0x10 0x00 @ replicate 128 0xAA @ replicate 128 0
         \<and> handlecommand_write 1 (small_world\<lparr>sio_rx := replicate 128 0 @ [0]\<rparr>)
             = Some (st3\<lparr>sio_tx := [0x41, 0x43]\<rparr>)"
    using w2 small_world_write by auto
  have w3: "handlecommand_write 1 (small_world\<lparr>sio_rx := []\<rparr>) = None"
    using write_atomic_on_checksum_failure [where st = "small_world\<lparr>sio_rx := []\<rparr>" and sector = 1] r3
    by simp
  from r1 r2 w1 w2' w3 show ?thesis by simp
qed

lemma decode_sector_zero: "decode_sector 0 0 = 65535"
  by (simp add: decode_sector_def)

lemma sector_max_out_of_range: "disksize st \<le> (65535 :: c_uint)"
proof -
  have "uint (disksize st) < 65536" using uint_lt2p [of "disksize st"] by simp
  then show ?thesis by (simp add: word_le_def)
qed

lemma handlecommand_read_failed:
  assumes "readsector sector st = (False, [], st)"
  shows "handlecommand_read sector st = (setactivitylight st)\<lparr>sio_tx := sio_tx st @ [0x45]\<rparr>"
proof -
  have eq: "readsector sector (setactivitylight st) =
      (fst (readsector sector st), fst (snd (readsector sector st)),
       setactivitylight (snd (snd (readsector sector st))))"
    by (simp add: readsector_def setactivitylight_def Let_def file_seek_def file_read_def
        split: option.splits)
  show ?thesis
    unfolding handlecommand_read_def eq assms
    by (simp add: SIO_write_def setactivitylight_def)
qed

lemma handlecommand_write_out_of_range:
  assumes w: "\<And>d s. writesector sector d s = (False, s)"
      and h: "handlecommand_write sector st = Some st'"
  shows "\<exists>rs. st' = st\<lparr>sio_rx := rs, sio_tx := sio_tx st @ [0x45]\<rparr>
            \<or> st' = st\<lparr>sio_rx := rs, sio_tx := sio_tx st @ [0x41, 0x45]\<rparr>"
proof -
  from h obtain data ok st1 where rc: "receivewithchecksum 128 st = Some (data, ok, st1)"
    by (auto simp: handlecommand_write_def split: option.splits)
  show ?thesis
  proof (cases ok)
    case False
    with rc have "receivewithchecksum 128 st = Some (data, False, st1)" by simp
    from handlecommand_write_bad [OF this, of sector] h show ?thesis by auto
  next
    case True
    with rc have r: "receivewithchecksum 128 st = Some (data, True, st1)" by simp
    from handlecommand_write_good [OF r w] h show ?thesis by auto
  qed
qed

text \<open>
  C10. Bus sector number 0 (\<open>aux1 = 0, aux2 = 0\<close>) decodes to 65535 by 16-bit unsigned
  wrap-around. An open image has at most 0xE000 sectors, so 65535 is never below
  \<^verbatim>\<open>disksize\<close>: \<^verbatim>\<open>readsector\<close> and \<^verbatim>\<open>writesector\<close> return false at their bounds check
  and leave the file handle and the card untouched. READ answers with the acknowledgement
  and then the error byte; WRITE, once its data frame has arrived, ends with the error
  byte, after the intermediate acknowledgement when the data checksum was right.
\<close>

theorem sector_zero_underflow:
  "decode_sector 0 0 = 65535
   \<and> uint (decode_sector 0 0) = (0 + 0 * 256 - 1) mod 65536
   \<and> (backend_inv st \<and> diskavailable st \<longrightarrow>
         uint (disksize st) \<le> 0xE000 \<and> disksize st < decode_sector 0 0)
   \<and> disksize st \<le> decode_sector 0 0
   \<and> readsector (decode_sector 0 0) st = (False, [], st)
   \<and> writesector (decode_sector 0 0) data st = (False, st)
   \<and> handlecommand_read (decode_sector 0 0) st = (setactivitylight st)\<lparr>sio_tx := sio_tx st @ [0x45]\<rparr>
   \<and> (handlecommand_write (decode_sector 0 0) st = Some st' \<longrightarrow>
        (\<exists>rs. st' = st\<lparr>sio_rx := rs, sio_tx := sio_tx st @ [0x45]\<rparr>
             \<or> st' = st\<lparr>sio_rx := rs, sio_tx := sio_tx st @ [0x41, 0x45]\<rparr>))
   \<and> (capture_frame st = Some ([dev, 0x52, 0, 0, ck], st1)
        \<and> uint ck = spec_checksum [dev, 0x52, 0, 0] \<and> 0x31 \<le> uint dev \<and> uint dev \<le> 0x33 \<longrightarrow>
        (\<exists>st'. handle_sio st = Some st' \<and> sio_tx st' = sio_tx st @ [0x41, 0x45] \<and> sd st' = sd st))"
proof -
  have le: "disksize s \<le> decode_sector 0 0" for s :: state
    by (simp only: decode_sector_zero sector_max_out_of_range)
  have rd: "readsector (decode_sector 0 0) s = (False, [], s)" for s
    using le [of s] by (simp add: readsector_closed)
  have wr: "writesector (decode_sector 0 0) d s = (False, s)" for d s
    using le [of s] by (simp add: writesector_closed)
  have bound: "backend_inv st \<and> diskavailable st \<longrightarrow>
         uint (disksize st) \<le> 0xE000 \<and> disksize st < decode_sector 0 0"
  proof
    assume a: "backend_inv st \<and> diskavailable st"
    then have "uint (disksize st) \<le> 0xE000" using backend_inv_open [of st] by auto
    moreover from this have "disksize st < 65535" by (simp add: word_less_def)
    ultimately show "uint (disksize st) \<le> 0xE000 \<and> disksize st < decode_sector 0 0"
      by (simp add: decode_sector_zero)
  qed
  have hr: "handlecommand_read (decode_sector 0 0) s = (setactivitylight s)\<lparr>sio_tx := sio_tx s @ [0x45]\<rparr>" for s
    using rd [of s] by (rule handlecommand_read_failed)
  have hw: "handlecommand_write (decode_sector 0 0) st = Some st' \<longrightarrow>
        (\<exists>rs. st' = st\<lparr>sio_rx := rs, sio_tx := sio_tx st @ [0x45]\<rparr>
             \<or> st' = st\<lparr>sio_rx := rs, sio_tx := sio_tx st @ [0x41, 0x45]\<rparr>)"
    using handlecommand_write_out_of_range [of "decode_sector 0 0" st st'] wr by blast
  have fr: "capture_frame st = Some ([dev, 0x52, 0, 0, ck], st1)
        \<and> uint ck = spec_checksum [dev, 0x52, 0, 0] \<and> 0x31 \<le> uint dev \<and> uint dev \<le> 0x33 \<longrightarrow>
        (\<exists>st'. handle_sio st = Some st' \<and> sio_tx st' = sio_tx st @ [0x41, 0x45] \<and> sd st' = sd st)"
  proof
    assume a: "capture_frame st = Some ([dev, 0x52, 0, 0, ck], st1)
        \<and> uint ck = spec_checksum [dev, 0x52, 0, 0] \<and> 0x31 \<le> uint dev \<and> uint dev \<le> 0x33"
    then have c: "capture_frame st = Some ([dev, 0x52, 0, 0, ck], st1)" by simp
    from capture_frame_state [OF c] obtain ls rs where st1: "st1 = st\<lparr>cmdline := ls, sio_rx := rs\<rparr>"
      by blast
    let ?o = "opendiskfile (dev - 0x31) (getdiskselectorvalue st1) (SIO_write 0x41 st1)"
    have h: "handle_sio st = Some (handlecommand_read (decode_sector 0 0) ?o)"
      using a handle_sio_frame [OF c] by (simp add: dispatch_read)
    have otx: "sio_tx ?o = sio_tx st @ [0x41]" and osd: "sd ?o = sd st"
      using opendiskfile_frame [of "dev - 0x31" "getdiskselectorvalue st1" "SIO_write 0x41 st1"]
      by (simp_all add: SIO_write_def st1)
    have "sio_tx (handlecommand_read (decode_sector 0 0) ?o) = sio_tx st @ [0x41, 0x45]"
      by (simp add: hr otx setactivitylight_def)
    moreover have "sd (handlecommand_read (decode_sector 0 0) ?o) = sd st"
      by (simp add: hr osd setactivitylight_def)
    ultimately show "\<exists>st'. handle_sio st = Some st' \<and> sio_tx st' = sio_tx st @ [0x41, 0x45] \<and> sd st' = sd st"
      using h by simp
  qed
  have u: "uint (decode_sector 0 0) = (0 + 0 * 256 - 1) mod 65536"
    by (simp add: decode_sector_zero)
  from decode_sector_zero u bound le [of st] rd [of st] wr [of data st] hr [of st] hw fr
  show ?thesis by blast
qed

theorem sector_zero_underflow_witness:
  "capture_frame sector_zero_world = Some ([0x31, 0x52, 0, 0, 0x83], boot 7 example_card [] [])
   \<and> uint (0x83 :: byte) = spec_checksum [0x31, 0x52, 0, 0]
   \<and> (\<exists>st'. handle_sio sector_zero_world = Some st' \<and> sio_tx st' = [0x41, 0x45] \<and> sd st' = example_card)
   \<and> backend_inv small_world \<and> diskavailable small_world
   \<and> uint (disksize small_world) \<le> 0xE000 \<and> disksize small_world < decode_sector 0 0
   \<and> readsector 65535 small_world = (False, [], small_world)
   \<and> handlecommand_write 65535 (small_world\<lparr>sio_rx := replicate 128 0 @ [0]\<rparr>)
        = Some (small_world\<lparr>sio_rx := [], sio_tx := [0x41, 0x45]\<rparr>)"
proof -
  have c: "capture_frame sector_zero_world = Some ([0x31, 0x52, 0, 0, 0x83], boot 7 example_card [] [])"
    by (simp add: capture_frame_def sector_zero_world_def boot_def)
  have ck: "uint (0x83 :: byte) = spec_checksum [0x31, 0x52, 0, 0]"
    by (simp add: spec_checksum_def spec_carry_def)
  have z: "decode_sector 0 0 = 65535"
    using sector_zero_underflow by blast
  have a: "\<exists>st'. handle_sio sector_zero_world = Some st' \<and> sio_tx st' = [0x41, 0x45] \<and> sd st' = example_card"
    using sector_zero_underflow [where st = sector_zero_world and dev = "0x31" and ck = "0x83"
        and ?st1.0 = "boot 7 example_card [] []"] c ck
    by (simp add: sector_zero_world_def boot_fields)
  have inv: "backend_inv small_world"
    unfolding small_world_def by (rule opendiskfile_inv) (rule boot_inv)
  have av: "diskavailable small_world" by (simp add: small_world_eq diskavailable_def)
  have b: "uint (disksize small_world) \<le> 0xE000 \<and> disksize small_world < decode_sector 0 0"
    using sector_zero_underflow [where st = small_world] inv av by blast
  have r: "readsector 65535 small_world = (False, [], small_world)"
    using sector_zero_underflow [where st = small_world] by (simp add: z)
  have rc: "receivewithchecksum 128 (small_world\<lparr>sio_rx := replicate 128 0 @ [0]\<rparr>)
     = Some (replicate 128 0, True, small_world\<lparr>sio_rx := []\<rparr>)"
    using receive_zeros [where st = small_world and c = 0] by simp
  have ws: "writesector 65535 (replicate 128 0) (small_world\<lparr>sio_rx := [], sio_tx := [0x41]\<rparr>)
      = (False, small_world\<lparr>sio_rx := [], sio_tx := [0x41]\<rparr>)"
    using sector_zero_underflow [where st = "small_world\<lparr>sio_rx := [], sio_tx := [0x41]\<rparr>"
        and data = "replicate 128 0"] by (simp add: z)
  have tx: "sio_tx small_world = []" by (simp add: small_world_eq boot_fields)
  have w: "handlecommand_write 65535 (small_world\<lparr>sio_rx := replicate 128 0 @ [0]\<rparr>)
        = Some (small_world\<lparr>sio_rx := [], sio_tx := [0x41, 0x45]\<rparr>)"
    using handlecommand_write_good [OF rc, where sector = 65535 and wok = False
        and ?st3.0 = "small_world\<lparr>sio_rx := [], sio_tx := [0x41]\<rparr>"] ws tx
    by simp
  from c ck a inv av b r w show ?thesis by simp
qed

section \<open>Frames that get no answer\<close>

lemma wait_command_low_samples:
  "wait_command_low ls rs = Some (ls', rs') \<Longrightarrow>
     \<exists>idle. ls = idle @ LOW # ls' \<and> set idle \<subseteq> {HIGH}"
proof (induction ls arbitrary: rs)
  case Nil
  then show ?case by simp
next
  case (Cons l ls)
  show ?case
  proof (cases l)
    case LOW
    with Cons.prems have "ls' = ls" by simp
    with LOW have "l # ls = [] @ LOW # ls' \<and> set [] \<subseteq> {HIGH}" by simp
    then show ?thesis by blast
  next
    case HIGH
    with Cons.prems have "wait_command_low ls (snd (SIO_read rs)) = Some (ls', rs')" by simp
    from Cons.IH [OF this] obtain idle where "ls = idle @ LOW # ls'" "set idle \<subseteq> {HIGH}" by blast
    with HIGH have "l # ls = (HIGH # idle) @ LOW # ls' \<and> set (HIGH # idle) \<subseteq> {HIGH}" by simp
    then show ?thesis by blast
  qed
qed

lemma read_command_released:
  "read_command command ls rs = Some (command', ls', rs') \<Longrightarrow> length command' < 5 \<Longrightarrow>
     \<exists>pre. ls = pre @ HIGH # ls' \<and> set pre \<subseteq> {LOW}"
proof (induction ls arbitrary: command rs)
  case Nil
  then show ?case by (simp split: if_splits)
next
  case (Cons l ls)
  show ?case
  proof (cases "length command < 5")
    case False
    with Cons.prems show ?thesis by simp
  next
    case short: True
    show ?thesis
    proof (cases l)
      case HIGH
      with Cons.prems short have "ls' = ls" by simp
      with HIGH have "l # ls = [] @ HIGH # ls' \<and> set [] \<subseteq> {LOW}" by simp
      then show ?thesis by blast
    next
      case LOW
      obtain r rs1 where sr: "SIO_read rs = (r, rs1)" by (cases "SIO_read rs")
      let ?c = "if r \<ge> 0 then command @ [word_of_int r] else command"
      have "read_command ?c ls rs1 = Some (command', ls', rs')"
        using Cons.prems(1) short LOW sr by simp
      from Cons.IH [OF this Cons.prems(2)] obtain pre where "ls = pre @ HIGH # ls'" "set pre \<subseteq> {LOW}"
        by blast
      with LOW have "l # ls = (LOW # pre) @ HIGH # ls' \<and> set (LOW # pre) \<subseteq> {LOW}" by simp
      then show ?thesis by blast
    qed
  qed
qed

lemma capture_frame_released:
  assumes "capture_frame st = Some (command, st1)" "length command < 5"
  shows "\<exists>idle pre. cmdline st = idle @ LOW # pre @ HIGH # cmdline st1
            \<and> set idle \<subseteq> {HIGH} \<and> set pre \<subseteq> {LOW}"
proof -
  from assms obtain ls1 rs1 ls2 rs2 where
    w: "wait_command_low (cmdline st) (sio_rx st) = Some (ls1, rs1)"
    and rc: "read_command [] ls1 rs1 = Some (command, ls2, rs2)"
    and st1: "st1 = st\<lparr>cmdline := ls2, sio_rx := rs2\<rparr>"
    by (auto simp: capture_frame_def split: option.splits if_splits)
  from wait_command_low_samples [OF w] obtain idle where
    i: "cmdline st = idle @ LOW # ls1" "set idle \<subseteq> {HIGH}" by blast
  from read_command_released [OF rc assms(2)] obtain pre where
    p: "ls1 = pre @ HIGH # ls2" "set pre \<subseteq> {LOW}" by blast
  have "cmdline st = idle @ LOW # pre @ HIGH # cmdline st1"
    using i(1) p(1) st1 by simp
  with i(2) p(2) show ?thesis by blast
qed

lemma handle_sio_dropped:
  assumes c: "capture_frame st = Some (command, st1)"
      and bad: "length command < 5 \<or> uint (command ! 4) \<noteq> spec_checksum (take 4 command)
                  \<or> uint (command ! 0) < 0x31 \<or> 0x33 < uint (command ! 0)"
  shows "handle_sio st = Some st1" and "sio_tx st1 = sio_tx st"
    and "\<exists>ls rs. st1 = st\<lparr>cmdline := ls, sio_rx := rs\<rparr>"
    and "run_loop (Suc n) st = run_loop n st1"
proof -
  show h: "handle_sio st = Some st1"
    using bad by (simp add: handle_sio_frame [OF c])
  from capture_frame_state [OF c] show e: "\<exists>ls rs. st1 = st\<lparr>cmdline := ls, sio_rx := rs\<rparr>" by simp
  from e show "sio_tx st1 = sio_tx st" by auto
  show "run_loop (Suc n) st = run_loop n st1" by (simp add: h)
qed

lemma SIO_read_snd: "snd (SIO_read rs) = tl rs"
  by (cases rs) simp_all

lemma wait_command_low_exact:
  "set idle \<subseteq> {HIGH} \<Longrightarrow> wait_command_low (idle @ LOW # ls) rs = Some (ls, drop (length idle) rs)"
proof (induction idle arbitrary: rs)
  case Nil
  then show ?case by simp
next
  case (Cons l idle)
  then have l: "l = HIGH" and i: "set idle \<subseteq> {HIGH}" by simp_all
  from Cons.IH [OF i, of "tl rs"] show ?case by (simp add: l SIO_read_snd drop_Suc)
qed

lemma wait_command_high_exact:
  "set pre \<subseteq> {LOW} \<Longrightarrow>
     \<exists>n'. wait_command_high n (pre @ HIGH # ls) rs = Some (n', ls, drop (length pre) rs)"
proof (induction pre arbitrary: n rs)
  case Nil
  then show ?case by simp
next
  case (Cons l pre)
  then have l: "l = LOW" and p: "set pre \<subseteq> {LOW}" by simp_all
  obtain r where sr: "SIO_read rs = (r, tl rs)" using SIO_read_snd [of rs] by (cases "SIO_read rs") simp
  from Cons.IH [OF p, of "if r \<ge> 0 then n + 1 else n" "tl rs"] show ?case
    by (simp add: l sr drop_Suc)
qed

lemma read_step_bytes:
  assumes "SIO_read rs = (r, rs1)"
  shows "command @ map word_of_int (filter (\<lambda>r. 0 \<le> r) (take (Suc k) rs))
       = (if r \<ge> 0 then command @ [word_of_int r] else command)
           @ map word_of_int (filter (\<lambda>r. 0 \<le> r) (take k rs1))"
  using assms by (cases rs) auto

lemma read_command_exact:
  "set pre \<subseteq> {LOW} \<Longrightarrow> length command \<le> 5 \<Longrightarrow>
     (case read_command command (pre @ HIGH # ls) rs of
        None \<Rightarrow> None
      | Some (c, ls2, rs2) \<Rightarrow>
          if length c < 5 then Some (c, ls2, rs2)
          else (case wait_command_high n ls2 rs2 of
                  None \<Rightarrow> None
                | Some (n', ls3, rs3) \<Rightarrow> Some (c, ls3, rs3)))
     = Some (take 5 (command @ map word_of_int (filter (\<lambda>r. 0 \<le> r) (take (length pre) rs))),
             ls, drop (length pre) rs)"
proof (induction pre arbitrary: command rs)
  case Nil
  show ?case
  proof (cases "length command < 5")
    case True
    then show ?thesis by simp
  next
    case False
    with Nil.prems have "length command = 5" by simp
    then show ?thesis by simp
  qed
next
  case (Cons l pre)
  then have l: "l = LOW" and p: "set pre \<subseteq> {LOW}" by simp_all
  show ?case
  proof (cases "length command < 5")
    case False
    with Cons.prems have five: "length command = 5" by simp
    have rc: "read_command command ((l # pre) @ HIGH # ls) rs = Some (command, (l # pre) @ HIGH # ls, rs)"
      using five by simp
    from wait_command_high_exact [OF Cons.prems(1), of n ls rs]
    obtain n' where wh: "wait_command_high n ((l # pre) @ HIGH # ls) rs = Some (n', ls, drop (length (l # pre)) rs)"
      by blast
    show ?thesis unfolding rc using five wh by simp
  next
    case True
    obtain r where sr: "SIO_read rs = (r, tl rs)" using SIO_read_snd [of rs] by (cases "SIO_read rs") simp
    let ?c = "if r \<ge> 0 then command @ [word_of_int r] else command"
    have len: "length ?c \<le> 5" using True by simp
    have rc: "read_command command ((l # pre) @ HIGH # ls) rs = read_command ?c (pre @ HIGH # ls) (tl rs)"
      using True l sr by simp
    have bytes: "command @ map word_of_int (filter (\<lambda>r. 0 \<le> r) (take (length (l # pre)) rs))
        = ?c @ map word_of_int (filter (\<lambda>r. 0 \<le> r) (take (length pre) (tl rs)))"
      using read_step_bytes [OF sr, of command "length pre"] by simp
    have dr: "drop (length (l # pre)) rs = drop (length pre) (tl rs)" by (simp add: drop_Suc)
    show ?thesis unfolding rc bytes dr by (rule Cons.IH [OF p len])
  qed
qed

lemma capture_frame_exact:
  assumes c: "cmdline st = idle @ LOW # pre @ HIGH # rest"
      and i: "set idle \<subseteq> {HIGH}" and p: "set pre \<subseteq> {LOW}"
  shows "capture_frame st =
     Some (spec_frame (length idle) (length pre) (sio_rx st),
           st\<lparr>cmdline := rest, sio_rx := drop (length idle + length pre) (sio_rx st)\<rparr>)"
proof -
  let ?rs1 = "drop (length idle) (sio_rx st)"
  have w: "wait_command_low (cmdline st) (sio_rx st) = Some (pre @ HIGH # rest, ?rs1)"
    unfolding c by (rule wait_command_low_exact [OF i])
  have dd: "drop (length pre) ?rs1 = drop (length idle + length pre) (sio_rx st)"
    by (simp add: add.commute)
  have l0: "length ([] :: byte list) \<le> 5" by simp
  have e: "(case read_command [] (pre @ HIGH # rest) ?rs1 of
        None \<Rightarrow> None
      | Some (c, ls2, rs2) \<Rightarrow>
          if length c < 5 then Some (c, ls2, rs2)
          else (case wait_command_high 5 ls2 rs2 of
                  None \<Rightarrow> None
                | Some (n', ls3, rs3) \<Rightarrow> Some (c, ls3, rs3)))
     = Some (spec_frame (length idle) (length pre) (sio_rx st), rest,
             drop (length idle + length pre) (sio_rx st))"
    unfolding spec_frame_def dd [symmetric]
    using read_command_exact [OF p l0, where ls = rest and rs = ?rs1 and n = 5] by simp
  obtain cm ls2 rs2 where rc: "read_command [] (pre @ HIGH # rest) ?rs1 = Some (cm, ls2, rs2)"
    using e by (cases "read_command [] (pre @ HIGH # rest) ?rs1") auto
  show ?thesis
  proof (cases "length cm < 5")
    case True
    with e rc have "cm = spec_frame (length idle) (length pre) (sio_rx st)"
      and "ls2 = rest" and "rs2 = drop (length idle + length pre) (sio_rx st)"
      by simp_all
    with w rc True show ?thesis by (simp add: capture_frame_def)
  next
    case False
    with e rc obtain n' ls3 rs3 where wh: "wait_command_high 5 ls2 rs2 = Some (n', ls3, rs3)"
      by (cases "wait_command_high 5 ls2 rs2") auto
    with e rc False have "cm = spec_frame (length idle) (length pre) (sio_rx st)"
      and "ls3 = rest" and "rs3 = drop (length idle + length pre) (sio_rx st)"
      by simp_all
    moreover from False have "\<not> length cm \<le> 0" by (cases cm) simp_all
    ultimately show ?thesis using w rc wh False by (simp add: capture_frame_def)
  qed
qed

lemma read_command_taken:
  "read_command command ls rs = Some (command', ls', rs') \<Longrightarrow> \<not> length command' < 5 \<Longrightarrow>
     \<exists>pre. ls = pre @ ls' \<and> set pre \<subseteq> {LOW}"
proof (induction ls arbitrary: command rs)
  case Nil
  then show ?case by (simp split: if_splits)
next
  case (Cons l ls)
  show ?case
  proof (cases "length command < 5")
    case False
    with Cons.prems have "ls' = l # ls" by simp
    then have "l # ls = [] @ ls' \<and> set [] \<subseteq> {LOW}" by simp
    then show ?thesis by blast
  next
    case short: True
    show ?thesis
    proof (cases l)
      case HIGH
      with Cons.prems short show ?thesis by simp
    next
      case LOW
      obtain r rs1 where sr: "SIO_read rs = (r, rs1)" by (cases "SIO_read rs")
      let ?c = "if r \<ge> 0 then command @ [word_of_int r] else command"
      have "read_command ?c ls rs1 = Some (command', ls', rs')"
        using Cons.prems(1) short LOW sr by simp
      from Cons.IH [OF this Cons.prems(2)] obtain pre where "ls = pre @ ls'" "set pre \<subseteq> {LOW}"
        by blast
      with LOW have "l # ls = (LOW # pre) @ ls' \<and> set (LOW # pre) \<subseteq> {LOW}" by simp
      then show ?thesis by blast
    qed
  qed
qed

lemma wait_command_high_samples:
  "wait_command_high n ls rs = Some (n', ls', rs') \<Longrightarrow>
     \<exists>pre. ls = pre @ HIGH # ls' \<and> set pre \<subseteq> {LOW}"
proof (induction ls arbitrary: n rs)
  case Nil
  then show ?case by simp
next
  case (Cons l ls)
  show ?case
  proof (cases l)
    case HIGH
    with Cons.prems have "ls' = ls" by simp
    with HIGH have "l # ls = [] @ HIGH # ls' \<and> set [] \<subseteq> {LOW}" by simp
    then show ?thesis by blast
  next
    case LOW
    obtain r rs1 where sr: "SIO_read rs = (r, rs1)" by (cases "SIO_read rs")
    have "wait_command_high (if r \<ge> 0 then n + 1 else n) ls rs1 = Some (n', ls', rs')"
      using Cons.prems LOW sr by simp
    from Cons.IH [OF this] obtain pre where "ls = pre @ HIGH # ls'" "set pre \<subseteq> {LOW}" by blast
    with LOW have "l # ls = (LOW # pre) @ HIGH # ls' \<and> set (LOW # pre) \<subseteq> {LOW}" by simp
    then show ?thesis by blast
  qed
qed

lemma capture_frame_samples:
  assumes "capture_frame st = Some (command, st1)"
  shows "\<exists>idle pre. cmdline st = idle @ LOW # pre @ HIGH # cmdline st1
            \<and> set idle \<subseteq> {HIGH} \<and> set pre \<subseteq> {LOW}"
proof (cases "length command < 5")
  case True
  with assms show ?thesis by (rule capture_frame_released)
next
  case False
  then have n0: "\<not> length command \<le> 0" by (cases command) simp_all
  obtain ls1 rs1 where w: "wait_command_low (cmdline st) (sio_rx st) = Some (ls1, rs1)"
    using assms by (cases "wait_command_low (cmdline st) (sio_rx st)") (auto simp: capture_frame_def)
  obtain c2 ls2 rs2 where rc0: "read_command [] ls1 rs1 = Some (c2, ls2, rs2)"
    using assms w by (cases "read_command [] ls1 rs1") (auto simp: capture_frame_def)
  have c2: "c2 = command"
    using assms w rc0 by (auto simp: capture_frame_def split: if_splits option.splits)
  note rc = rc0 [unfolded c2]
  obtain n' ls3 rs3 where wh: "wait_command_high 5 ls2 rs2 = Some (n', ls3, rs3)"
    using assms w rc False n0 by (cases "wait_command_high 5 ls2 rs2") (auto simp: capture_frame_def)
  have st1: "st1 = st\<lparr>cmdline := ls3, sio_rx := rs3\<rparr>"
    using assms w rc wh False n0 by (simp add: capture_frame_def)
  from wait_command_low_samples [OF w] obtain idle where
    i: "cmdline st = idle @ LOW # ls1" "set idle \<subseteq> {HIGH}" by blast
  from read_command_taken [OF rc False] obtain pre1 where
    p1: "ls1 = pre1 @ ls2" "set pre1 \<subseteq> {LOW}" by blast
  from wait_command_high_samples [OF wh] obtain pre2 where
    p2: "ls2 = pre2 @ HIGH # ls3" "set pre2 \<subseteq> {LOW}" by blast
  have "cmdline st = idle @ LOW # (pre1 @ pre2) @ HIGH # cmdline st1"
    using i(1) p1(1) p2(1) st1 by simp
  moreover have "set (pre1 @ pre2) \<subseteq> {LOW}" using p1(2) p2(2) by simp
  ultimately show ?thesis using i(2) by blast
qed

lemma capture_frame_input:
  assumes c: "capture_frame st = Some (command, st1)"
  shows "\<exists>idle pre. cmdline st = idle @ LOW # pre @ HIGH # cmdline st1
            \<and> set idle \<subseteq> {HIGH} \<and> set pre \<subseteq> {LOW}
            \<and> command = spec_frame (length idle) (length pre) (sio_rx st)
            \<and> st1 = st\<lparr>cmdline := cmdline st1,
                       sio_rx := drop (length idle + length pre) (sio_rx st)\<rparr>"
proof -
  from capture_frame_samples [OF c] obtain idle pre where
    s: "cmdline st = idle @ LOW # pre @ HIGH # cmdline st1" "set idle \<subseteq> {HIGH}" "set pre \<subseteq> {LOW}"
    by blast
  from capture_frame_exact [OF s] c
  have "command = spec_frame (length idle) (length pre) (sio_rx st)"
    and "st1 = st\<lparr>cmdline := cmdline st1, sio_rx := drop (length idle + length pre) (sio_rx st)\<rparr>"
    by simp_all
  with s show ?thesis by blast
qed

lemma dispatch_returns:
  "command ! 1 \<noteq> 0x57 \<Longrightarrow> \<exists>st'. dispatch_command command st = Some st'"
  by (simp add: dispatch_command_def Let_def)

lemma receivewithchecksum_waits:
  "sio_rx a = sio_rx b \<Longrightarrow> (receivewithchecksum len a = None) = (receivewithchecksum len b = None)"
  by (simp add: receivewithchecksum_def split: option.splits)

lemma handlecommand_write_waits:
  "(handlecommand_write sector st = None) = (receivewithchecksum 128 st = None)"
proof (cases "receivewithchecksum 128 st")
  case None
  then show ?thesis by (simp add: handlecommand_write_def)
next
  case (Some r)
  obtain data ok st1 where r: "r = (data, ok, st1)" by (cases r)
  show ?thesis
  proof (cases ok)
    case False
    with Some r have "receivewithchecksum 128 st = Some (data, False, st1)" by simp
    from handlecommand_write_bad [OF this] Some show ?thesis by simp
  next
    case True
    obtain wok st3 where w: "writesector sector data (st\<lparr>sio_rx := sio_rx st1, sio_tx := sio_tx st @ [0x41]\<rparr>) = (wok, st3)"
      by (cases "writesector sector data (st\<lparr>sio_rx := sio_rx st1, sio_tx := sio_tx st @ [0x41]\<rparr>)")
    from Some r True have "receivewithchecksum 128 st = Some (data, True, st1)" by simp
    from handlecommand_write_good [OF this w] Some show ?thesis by simp
  qed
qed

lemma dispatch_write_waits:
  assumes "command ! 1 = 0x57"
  shows "(dispatch_command command st = None) = (receivewithchecksum 128 st = None)"
proof -
  let ?a = "SIO_write (of_char CHR ''A'') st"
  let ?o = "opendiskfile (ucast (ucast (command ! 0) - 0x31 :: c_uint)) (getdiskselectorvalue ?a) ?a"
  have rx: "sio_rx ?o = sio_rx st"
    using opendiskfile_frame [of "ucast (ucast (command ! 0) - 0x31 :: c_uint)" "getdiskselectorvalue ?a" ?a]
    by (simp add: SIO_write_def)
  from assms have n: "command ! 1 \<noteq> 0x53" "command ! 1 \<noteq> 0x52" by simp_all
  have d: "dispatch_command command st = handlecommand_write (decode_sector (command ! 2) (command ! 3)) ?o"
    using n assms by (simp add: dispatch_command_def Let_def)
  show ?thesis
    unfolding d handlecommand_write_waits by (rule receivewithchecksum_waits [OF rx])
qed

lemma handlecommand_write_tx:
  assumes "handlecommand_write sector st = Some st'"
  shows "\<exists>bs. sio_tx st' = sio_tx st @ bs"
proof -
  from assms obtain data ok st1 where r: "receivewithchecksum 128 st = Some (data, ok, st1)"
    by (cases "receivewithchecksum 128 st") (auto simp: handlecommand_write_def)
  show ?thesis
  proof (cases ok)
    case False
    with r have "handlecommand_write sector st = Some (st\<lparr>sio_rx := sio_rx st1, sio_tx := sio_tx st @ [0x45]\<rparr>)"
      by (simp add: handlecommand_write_bad)
    with assms have "sio_tx st' = sio_tx st @ [0x45]" by auto
    then show ?thesis by blast
  next
    case True
    obtain wok st3 where w: "writesector sector data (st\<lparr>sio_rx := sio_rx st1, sio_tx := sio_tx st @ [0x41]\<rparr>) = (wok, st3)"
      by (cases "writesector sector data (st\<lparr>sio_rx := sio_rx st1, sio_tx := sio_tx st @ [0x41]\<rparr>)")
    from r True have r': "receivewithchecksum 128 st = Some (data, True, st1)" by simp
    from handlecommand_write_good [OF r' w] assms
    have "sio_tx st' = sio_tx st @ [0x41, if wok then 0x43 else 0x45]" by auto
    then show ?thesis by blast
  qed
qed

lemma handlecommand_status_tx:
  "sio_tx (handlecommand_status st) =
     sio_tx st @ 0x43 # status_record st @ [word_of_int (spec_checksum (status_record st))]"
  by (simp add: handlecommand_status_def sendwithchecksum_state SIO_write_def)

lemma dispatch_answer:
  assumes "dispatch_command command st = Some st'"
  shows "\<exists>bs. sio_tx st' = sio_tx st
            @ (if command ! 1 = 0x53 \<or> command ! 1 = 0x52 \<or> command ! 1 = 0x57 then 0x41 else 0x4E) # bs"
proof -
  let ?d = "ucast (ucast (command ! 0) - 0x31 :: c_uint) :: byte"
  let ?a = "SIO_write (of_char CHR ''A'') st"
  let ?o = "opendiskfile ?d (getdiskselectorvalue ?a) ?a"
  let ?s = "decode_sector (command ! 2) (command ! 3)"
  have o: "sio_tx ?o = sio_tx st @ [0x41]"
    using opendiskfile_frame [of ?d "getdiskselectorvalue ?a" ?a] by (simp add: SIO_write_def)
  consider (c_status) "command ! 1 = 0x53"
    | (c_read) "command ! 1 \<noteq> 0x53" "command ! 1 = 0x52"
    | (c_write) "command ! 1 \<noteq> 0x53" "command ! 1 \<noteq> 0x52" "command ! 1 = 0x57"
    | (c_other) "command ! 1 \<noteq> 0x53" "command ! 1 \<noteq> 0x52" "command ! 1 \<noteq> 0x57"
    by blast
  then show ?thesis
  proof cases
    case c_status
    then have eq: "st' = handlecommand_status ?o"
      using assms by (simp add: dispatch_command_def Let_def)
    have "sio_tx st' = sio_tx ?o @ 0x43 # status_record ?o @ [word_of_int (spec_checksum (status_record ?o))]"
      unfolding eq by (rule handlecommand_status_tx)
    then have "sio_tx st' = (sio_tx st @ [0x41]) @ 0x43 # status_record ?o @ [word_of_int (spec_checksum (status_record ?o))]"
      unfolding o .
    then have "\<exists>bs. sio_tx st' = sio_tx st @ 0x41 # bs" by simp
    with c_status show ?thesis by simp
  next
    case c_read
    then have eq: "st' = handlecommand_read ?s ?o"
      using assms by (simp add: dispatch_command_def Let_def)
    have "\<exists>bs. sio_tx st' = sio_tx ?o @ bs"
      unfolding eq handlecommand_read_tx by simp
    then have "\<exists>bs. sio_tx st' = (sio_tx st @ [0x41]) @ bs" unfolding o .
    then have "\<exists>bs. sio_tx st' = sio_tx st @ 0x41 # bs" by simp
    with c_read show ?thesis by simp
  next
    case c_write
    then have "handlecommand_write ?s ?o = Some st'"
      using assms by (simp add: dispatch_command_def Let_def)
    from handlecommand_write_tx [OF this] have "\<exists>bs. sio_tx st' = sio_tx ?o @ bs" .
    then have "\<exists>bs. sio_tx st' = (sio_tx st @ [0x41]) @ bs" unfolding o .
    then have "\<exists>bs. sio_tx st' = sio_tx st @ 0x41 # bs" by simp
    with c_write show ?thesis by simp
  next
    case c_other
    then have "st' = SIO_write (of_char CHR ''N'') st"
      using assms by (simp add: dispatch_command_def Let_def)
    then have "sio_tx st' = sio_tx st @ 0x4E # []" by (simp add: SIO_write_def)
    with c_other show ?thesis by simp
  qed
qed

lemma not_well_formed:
  assumes "\<not> spec_well_formed c" "length c \<le> 5"
  shows "length c < 5 \<or> uint (c ! 4) \<noteq> spec_checksum (take 4 c)
                  \<or> uint (c ! 0) < 0x31 \<or> 0x33 < uint (c ! 0)"
  using assms unfolding spec_well_formed_def by linarith

lemma spec_frame_length: "length (spec_frame i p rs) \<le> 5"
  by (simp add: spec_frame_def)

lemma next_frame_handled:
  assumes c: "cmdline st = idle @ LOW # pre @ HIGH # idle2 @ LOW # pre2 @ HIGH # rest2"
      and i: "set idle \<subseteq> {HIGH}" and p: "set pre \<subseteq> {LOW}"
      and i2: "set idle2 \<subseteq> {HIGH}" and p2: "set pre2 \<subseteq> {LOW}"
      and bad: "\<not> spec_well_formed (spec_frame (length idle) (length pre) (sio_rx st))"
      and fr: "frame = spec_frame (length idle2) (length pre2) (drop (length idle + length pre) (sio_rx st))"
      and good: "spec_well_formed frame"
      and st2: "st2 = st\<lparr>cmdline := idle2 @ LOW # pre2 @ HIGH # rest2,
                        sio_rx := drop (length idle + length pre) (sio_rx st)\<rparr>"
      and st3: "st3 = st\<lparr>cmdline := rest2,
                        sio_rx := drop (length idle + length pre + length idle2 + length pre2) (sio_rx st)\<rparr>"
  shows "handle_sio st = Some st2" and "handle_sio st2 = dispatch_command frame st3"
proof -
  let ?f1 = "spec_frame (length idle) (length pre) (sio_rx st)"
  have c1: "capture_frame st = Some (?f1, st2)"
    unfolding st2 using c i p by (rule capture_frame_exact)
  from not_well_formed [OF bad spec_frame_length]
  show "handle_sio st = Some st2" by (simp add: handle_sio_frame [OF c1])
  have cm2: "cmdline st2 = idle2 @ LOW # pre2 @ HIGH # rest2" by (simp add: st2)
  have rx2: "sio_rx st2 = drop (length idle + length pre) (sio_rx st)" by (simp add: st2)
  have e: "st2\<lparr>cmdline := rest2, sio_rx := drop (length idle2 + length pre2) (sio_rx st2)\<rparr> = st3"
    unfolding st2 st3 by (simp add: add.commute add.left_commute)
  from capture_frame_exact [OF cm2 i2 p2]
  have "capture_frame st2 = Some (spec_frame (length idle2) (length pre2) (sio_rx st2), st3)"
    unfolding e .
  then have c2: "capture_frame st2 = Some (frame, st3)"
    unfolding fr rx2 .
  from good show "handle_sio st2 = dispatch_command frame st3"
    by (simp add: handle_sio_frame [OF c2] spec_well_formed_def)
qed

text \<open>
  C3. A frame that is not complete, checksum-valid and addressed to one of the three
  device-ids 0x31..0x33 gets no answer, and the frame after it is handled as if the
  dropped one had not been there.

  The capture returns for every pulse of the command line (idle high, low, high again). It
  consumes exactly the samples of that pulse and one poll of the serial port for each of
  them, apart from the two samples that end the waits; it keeps the first five bytes that
  arrive while the line is low and discards every other byte, before the pulse and after
  the fifth byte.

  Whenever the capture ends with fewer than five bytes (none at all, or one to four: the
  command line was sampled high before the fifth byte came), or with five bytes whose
  fifth is not the checksum of the first four, or with a device-id outside 0x31..0x33,
  \<^verbatim>\<open>handle_sio\<close> returns, nothing is written to the bus, and the state differs from the
  one before only by the input of that one pulse.

  When a second pulse follows and the frame captured during it is well-formed, the second
  round of the loop dispatches that frame, on the state from which only the input of the
  two pulses is gone. STATUS, READ and unknown commands return; WRITE returns when its
  data frame has arrived. The answer follows what was on the bus before and starts with
  \<open>A\<close>, or with \<open>N\<close> for an unknown command.
\<close>

theorem malformed_frames_silent:
  "(cmdline st = idle @ LOW # pre @ HIGH # rest \<and> set idle \<subseteq> {HIGH} \<and> set pre \<subseteq> {LOW}
      \<longrightarrow> capture_frame st =
            Some (spec_frame (length idle) (length pre) (sio_rx st),
                  st\<lparr>cmdline := rest, sio_rx := drop (length idle + length pre) (sio_rx st)\<rparr>))
   \<and> (capture_frame st = Some (command, st1)
      \<and> (length command < 5
         \<or> uint (command ! 4) \<noteq> spec_checksum (take 4 command)
         \<or> uint (command ! 0) < 0x31 \<or> 0x33 < uint (command ! 0))
      \<longrightarrow> handle_sio st = Some st1
          \<and> sio_tx st1 = sio_tx st
          \<and> (\<exists>i p. cmdline st = i @ LOW # p @ HIGH # cmdline st1
                \<and> set i \<subseteq> {HIGH} \<and> set p \<subseteq> {LOW}
                \<and> command = spec_frame (length i) (length p) (sio_rx st)
                \<and> st1 = st\<lparr>cmdline := cmdline st1,
                           sio_rx := drop (length i + length p) (sio_rx st)\<rparr>)
          \<and> run_loop (Suc n) st = run_loop n st1
          \<and> length command \<le> 5)
   \<and> (cmdline st = idle @ LOW # pre @ HIGH # idle2 @ LOW # pre2 @ HIGH # rest2
      \<and> set idle \<subseteq> {HIGH} \<and> set pre \<subseteq> {LOW} \<and> set idle2 \<subseteq> {HIGH} \<and> set pre2 \<subseteq> {LOW}
      \<and> \<not> spec_well_formed (spec_frame (length idle) (length pre) (sio_rx st))
      \<and> frame = spec_frame (length idle2) (length pre2) (drop (length idle + length pre) (sio_rx st))
      \<and> spec_well_formed frame
      \<and> st2 = st\<lparr>cmdline := idle2 @ LOW # pre2 @ HIGH # rest2,
                  sio_rx := drop (length idle + length pre) (sio_rx st)\<rparr>
      \<and> st3 = st\<lparr>cmdline := rest2,
                  sio_rx := drop (length idle + length pre + length idle2 + length pre2) (sio_rx st)\<rparr>
      \<longrightarrow> handle_sio st = Some st2
          \<and> handle_sio st2 = dispatch_command frame st3
          \<and> run_loop (Suc (Suc n)) st
               = (case dispatch_command frame st3 of None \<Rightarrow> None | Some st' \<Rightarrow> run_loop n st')
          \<and> (frame ! 1 \<noteq> 0x57 \<longrightarrow> (\<exists>st'. dispatch_command frame st3 = Some st'))
          \<and> (frame ! 1 = 0x57 \<longrightarrow>
                (dispatch_command frame st3 = None) = (receivewithchecksum 128 st3 = None))
          \<and> (\<forall>st'. dispatch_command frame st3 = Some st' \<longrightarrow>
                (\<exists>bs. sio_tx st' = sio_tx st
                   @ (if frame ! 1 = 0x53 \<or> frame ! 1 = 0x52 \<or> frame ! 1 = 0x57
                      then 0x41 else 0x4E) # bs)))"
proof (intro conjI)
  show "cmdline st = idle @ LOW # pre @ HIGH # rest \<and> set idle \<subseteq> {HIGH} \<and> set pre \<subseteq> {LOW}
      \<longrightarrow> capture_frame st =
            Some (spec_frame (length idle) (length pre) (sio_rx st),
                  st\<lparr>cmdline := rest, sio_rx := drop (length idle + length pre) (sio_rx st)\<rparr>)"
    using capture_frame_exact [of st idle pre rest] by blast
next
  show "capture_frame st = Some (command, st1)
      \<and> (length command < 5
         \<or> uint (command ! 4) \<noteq> spec_checksum (take 4 command)
         \<or> uint (command ! 0) < 0x31 \<or> 0x33 < uint (command ! 0))
      \<longrightarrow> handle_sio st = Some st1
          \<and> sio_tx st1 = sio_tx st
          \<and> (\<exists>i p. cmdline st = i @ LOW # p @ HIGH # cmdline st1
                \<and> set i \<subseteq> {HIGH} \<and> set p \<subseteq> {LOW}
                \<and> command = spec_frame (length i) (length p) (sio_rx st)
                \<and> st1 = st\<lparr>cmdline := cmdline st1,
                           sio_rx := drop (length i + length p) (sio_rx st)\<rparr>)
          \<and> run_loop (Suc n) st = run_loop n st1
          \<and> length command \<le> 5"
  proof
    assume a: "capture_frame st = Some (command, st1)
      \<and> (length command < 5
         \<or> uint (command ! 4) \<noteq> spec_checksum (take 4 command)
         \<or> uint (command ! 0) < 0x31 \<or> 0x33 < uint (command ! 0))"
    then have c: "capture_frame st = Some (command, st1)"
      and bad: "length command < 5 \<or> uint (command ! 4) \<noteq> spec_checksum (take 4 command)
                  \<or> uint (command ! 0) < 0x31 \<or> 0x33 < uint (command ! 0)"
      by simp_all
    note d = handle_sio_dropped [OF c bad]
    have len: "length command \<le> 5" using capture_frame_state [OF c] by simp
    from d(1) d(2) capture_frame_input [OF c] d(4) [of n] len
    show "handle_sio st = Some st1
          \<and> sio_tx st1 = sio_tx st
          \<and> (\<exists>i p. cmdline st = i @ LOW # p @ HIGH # cmdline st1
                \<and> set i \<subseteq> {HIGH} \<and> set p \<subseteq> {LOW}
                \<and> command = spec_frame (length i) (length p) (sio_rx st)
                \<and> st1 = st\<lparr>cmdline := cmdline st1,
                           sio_rx := drop (length i + length p) (sio_rx st)\<rparr>)
          \<and> run_loop (Suc n) st = run_loop n st1
          \<and> length command \<le> 5"
      by blast
  qed
next
  show "cmdline st = idle @ LOW # pre @ HIGH # idle2 @ LOW # pre2 @ HIGH # rest2
      \<and> set idle \<subseteq> {HIGH} \<and> set pre \<subseteq> {LOW} \<and> set idle2 \<subseteq> {HIGH} \<and> set pre2 \<subseteq> {LOW}
      \<and> \<not> spec_well_formed (spec_frame (length idle) (length pre) (sio_rx st))
      \<and> frame = spec_frame (length idle2) (length pre2) (drop (length idle + length pre) (sio_rx st))
      \<and> spec_well_formed frame
      \<and> st2 = st\<lparr>cmdline := idle2 @ LOW # pre2 @ HIGH # rest2,
                  sio_rx := drop (length idle + length pre) (sio_rx st)\<rparr>
      \<and> st3 = st\<lparr>cmdline := rest2,
                  sio_rx := drop (length idle + length pre + length idle2 + length pre2) (sio_rx st)\<rparr>
      \<longrightarrow> handle_sio st = Some st2
          \<and> handle_sio st2 = dispatch_command frame st3
          \<and> run_loop (Suc (Suc n)) st
               = (case dispatch_command frame st3 of None \<Rightarrow> None | Some st' \<Rightarrow> run_loop n st')
          \<and> (frame ! 1 \<noteq> 0x57 \<longrightarrow> (\<exists>st'. dispatch_command frame st3 = Some st'))
          \<and> (frame ! 1 = 0x57 \<longrightarrow>
                (dispatch_command frame st3 = None) = (receivewithchecksum 128 st3 = None))
          \<and> (\<forall>st'. dispatch_command frame st3 = Some st' \<longrightarrow>
                (\<exists>bs. sio_tx st' = sio_tx st
                   @ (if frame ! 1 = 0x53 \<or> frame ! 1 = 0x52 \<or> frame ! 1 = 0x57
                      then 0x41 else 0x4E) # bs))"
  proof (intro impI, elim conjE)
    assume c: "cmdline st = idle @ LOW # pre @ HIGH # idle2 @ LOW # pre2 @ HIGH # rest2"
      and i: "set idle \<subseteq> {HIGH}" and p: "set pre \<subseteq> {LOW}"
      and i2: "set idle2 \<subseteq> {HIGH}" and p2: "set pre2 \<subseteq> {LOW}"
      and bad: "\<not> spec_well_formed (spec_frame (length idle) (length pre) (sio_rx st))"
      and fr: "frame = spec_frame (length idle2) (length pre2) (drop (length idle + length pre) (sio_rx st))"
      and good: "spec_well_formed frame"
      and st2: "st2 = st\<lparr>cmdline := idle2 @ LOW # pre2 @ HIGH # rest2,
                        sio_rx := drop (length idle + length pre) (sio_rx st)\<rparr>"
      and st3: "st3 = st\<lparr>cmdline := rest2,
                        sio_rx := drop (length idle + length pre + length idle2 + length pre2) (sio_rx st)\<rparr>"
    note h = next_frame_handled [OF c i p i2 p2 bad fr good st2 st3]
    have r: "run_loop (Suc (Suc n)) st
               = (case dispatch_command frame st3 of None \<Rightarrow> None | Some st' \<Rightarrow> run_loop n st')"
      by (simp add: h)
    have t: "frame ! 1 \<noteq> 0x57 \<longrightarrow> (\<exists>st'. dispatch_command frame st3 = Some st')"
      using dispatch_returns [of frame st3] by blast
    have tw: "frame ! 1 = 0x57 \<longrightarrow>
                (dispatch_command frame st3 = None) = (receivewithchecksum 128 st3 = None)"
      using dispatch_write_waits [of frame st3] by blast
    have tx3: "sio_tx st3 = sio_tx st" by (simp add: st3)
    have a: "\<forall>st'. dispatch_command frame st3 = Some st' \<longrightarrow>
                (\<exists>bs. sio_tx st' = sio_tx st
                   @ (if frame ! 1 = 0x53 \<or> frame ! 1 = 0x52 \<or> frame ! 1 = 0x57
                      then 0x41 else 0x4E) # bs)"
      using dispatch_answer [of frame st3] unfolding tx3 by blast
    from h r t tw a show "handle_sio st = Some st2
          \<and> handle_sio st2 = dispatch_command frame st3
          \<and> run_loop (Suc (Suc n)) st
               = (case dispatch_command frame st3 of None \<Rightarrow> None | Some st' \<Rightarrow> run_loop n st')
          \<and> (frame ! 1 \<noteq> 0x57 \<longrightarrow> (\<exists>st'. dispatch_command frame st3 = Some st'))
          \<and> (frame ! 1 = 0x57 \<longrightarrow>
                (dispatch_command frame st3 = None) = (receivewithchecksum 128 st3 = None))
          \<and> (\<forall>st'. dispatch_command frame st3 = Some st' \<longrightarrow>
                (\<exists>bs. sio_tx st' = sio_tx st
                   @ (if frame ! 1 = 0x53 \<or> frame ! 1 = 0x52 \<or> frame ! 1 = 0x57
                      then 0x41 else 0x4E) # bs))"
      by blast
  qed
qed

lemma status_on_example:
  "handlecommand_status (opendiskfile 0 7 (SIO_write 0x41 (boot 7 example_card [] [])))
     = (boot 7 example_card [] [])\<lparr>diskfile := Some \<lparr>fname = ''07_foo.dat'', fpos = 16, fwrite = True\<rparr>,
          didinitsd := True, disksize := 2, sio_tx := [0x41, 0x43, 0x10, 0x00, 0xE0, 0x00, 0xF0]\<rparr>"
proof -
  let ?s = "SIO_write 0x41 (boot 7 example_card [] [])"
  have o: "opendiskfile 0 7 ?s = ?s\<lparr>diskfile := Some \<lparr>fname = ''07_foo.dat'', fpos = 16, fwrite = True\<rparr>,
              didinitsd := True, disksize := 2\<rparr>"
    by (rule example_open) (simp_all add: SIO_write_def boot_fields)
  have c: "spec_checksum [0x10, 0x00, 0xE0, 0x00] = 0xF0"
    by (simp add: spec_checksum_def spec_carry_def)
  have r: "status_record (opendiskfile 0 7 ?s) = [0x10, 0x00, 0xE0, 0x00]"
    by (simp add: o status_record_cases diskavailable_def)
  have "handlecommand_status (opendiskfile 0 7 ?s) =
      (opendiskfile 0 7 ?s)\<lparr>sio_tx := sio_tx (opendiskfile 0 7 ?s) @ [0x43, 0x10, 0x00, 0xE0, 0x00, 0xF0]\<rparr>"
    unfolding handlecommand_status_def sendwithchecksum_state r c by (simp add: SIO_write_def)
  also have "\<dots> = (boot 7 example_card [] [])\<lparr>diskfile := Some \<lparr>fname = ''07_foo.dat'', fpos = 16, fwrite = True\<rparr>,
          didinitsd := True, disksize := 2, sio_tx := [0x41, 0x43, 0x10, 0x00, 0xE0, 0x00, 0xF0]\<rparr>"
    unfolding o by (simp add: SIO_write_def boot_def)
  finally show ?thesis .
qed

lemma status_dispatch_example:
  "dispatch_command [0x31, 0x53, 0, 0, 0x84] (boot 7 example_card [] [])
     = Some ((boot 7 example_card [] [])\<lparr>diskfile := Some \<lparr>fname = ''07_foo.dat'', fpos = 16, fwrite = True\<rparr>,
          didinitsd := True, disksize := 2, sio_tx := [0x41, 0x43, 0x10, 0x00, 0xE0, 0x00, 0xF0]\<rparr>)"
proof -
  have sel: "getdiskselectorvalue (boot 7 example_card [] []) = 7"
    by (simp add: getdiskselectorvalue_def boot_def)
  show ?thesis
    unfolding dispatch_status sel using status_on_example by simp
qed

lemma frame_checks:
  "\<not> spec_well_formed [0x31, 0x53, 0, 0, 0x85]"
  "\<not> spec_well_formed [0x31, 0x53, 0]"
  "spec_well_formed [0x31, 0x53, 0, 0, 0x84]"
  by (simp_all add: spec_well_formed_def spec_checksum_def spec_carry_def)

theorem malformed_frames_silent_witness:
  "capture_frame noise_world
      = Some ([0x31, 0x53, 0, 0, 0x85],
              boot 7 example_card [HIGH, HIGH, LOW, LOW, LOW, LOW, LOW, LOW, HIGH]
                [0x99, - 1, 0x31, 0x53, 0, 0, 0x84])
   \<and> handle_sio noise_world
      = Some (boot 7 example_card [HIGH, HIGH, LOW, LOW, LOW, LOW, LOW, LOW, HIGH]
                [0x99, - 1, 0x31, 0x53, 0, 0, 0x84])
   \<and> map_option sio_tx (run_loop 2 noise_world) = Some [0x41, 0x43, 0x10, 0x00, 0xE0, 0x00, 0xF0]
   \<and> map_option sio_rx (run_loop 2 noise_world) = Some []
   \<and> capture_frame partial_frame_world = Some ([0x31, 0x53, 0], status_frame_world example_card)
   \<and> handle_sio partial_frame_world = Some (status_frame_world example_card)
   \<and> sio_tx (status_frame_world example_card) = []
   \<and> map_option sio_tx (run_loop 2 partial_frame_world) = Some [0x41, 0x43, 0x10, 0x00, 0xE0, 0x00, 0xF0]
   \<and> capture_frame glitch_world = Some ([], boot 7 example_card [] [])
   \<and> handle_sio glitch_world = Some (boot 7 example_card [] [])
   \<and> capture_frame bad_checksum_world = Some ([0x31, 0x53, 0, 0, 0x85], boot 7 example_card [] [])
   \<and> handle_sio bad_checksum_world = Some (boot 7 example_card [] [])
   \<and> capture_frame other_device_world = Some ([0x34, 0x53, 0, 0, 0x87], boot 7 example_card [] [])
   \<and> handle_sio other_device_world = Some (boot 7 example_card [] [])"
proof -
  let ?b = "boot 7 example_card [] []"
  let ?i = "[HIGH]"
  let ?p = "[LOW, LOW, LOW, LOW, LOW, LOW, LOW]"
  let ?i2 = "[HIGH, HIGH]"
  let ?p2 = "[LOW, LOW, LOW, LOW, LOW]"
  let ?f = "[0x31, 0x53, 0, 0, 0x84] :: byte list"
  let ?mid = "boot 7 example_card [HIGH, HIGH, LOW, LOW, LOW, LOW, LOW, LOW, HIGH]
                [0x99, - 1, 0x31, 0x53, 0, 0, 0x84]"
  let ?fin = "?b\<lparr>diskfile := Some \<lparr>fname = ''07_foo.dat'', fpos = 16, fwrite = True\<rparr>,
          didinitsd := True, disksize := 2, sio_tx := [0x41, 0x43, 0x10, 0x00, 0xE0, 0x00, 0xF0]\<rparr>"
  have h1: "cmdline noise_world = ?i @ LOW # ?p @ HIGH # ?i2 @ LOW # ?p2 @ HIGH # []
      \<and> set ?i \<subseteq> {HIGH} \<and> set ?p \<subseteq> {LOW}"
    by (simp add: noise_world_def boot_fields)
  have n1: "capture_frame noise_world = Some ([0x31, 0x53, 0, 0, 0x85], ?mid)"
    using malformed_frames_silent [where st = noise_world and idle = ?i and pre = ?p
        and rest = "?i2 @ LOW # ?p2 @ HIGH # []", THEN conjunct1, THEN mp, OF h1]
    by (simp add: spec_frame_def noise_world_def boot_def)
  have h3: "cmdline noise_world = ?i @ LOW # ?p @ HIGH # ?i2 @ LOW # ?p2 @ HIGH # []
      \<and> set ?i \<subseteq> {HIGH} \<and> set ?p \<subseteq> {LOW} \<and> set ?i2 \<subseteq> {HIGH} \<and> set ?p2 \<subseteq> {LOW}
      \<and> \<not> spec_well_formed (spec_frame (length ?i) (length ?p) (sio_rx noise_world))
      \<and> ?f = spec_frame (length ?i2) (length ?p2) (drop (length ?i + length ?p) (sio_rx noise_world))
      \<and> spec_well_formed ?f
      \<and> ?mid = noise_world\<lparr>cmdline := ?i2 @ LOW # ?p2 @ HIGH # [],
                  sio_rx := drop (length ?i + length ?p) (sio_rx noise_world)\<rparr>
      \<and> ?b = noise_world\<lparr>cmdline := [],
                  sio_rx := drop (length ?i + length ?p + length ?i2 + length ?p2) (sio_rx noise_world)\<rparr>"
    by (simp add: noise_world_def boot_def spec_frame_def frame_checks)
  note t3 = malformed_frames_silent [where st = noise_world and idle = ?i and pre = ?p
        and ?idle2.0 = ?i2 and ?pre2.0 = ?p2 and ?rest2.0 = "[]"
        and frame = ?f and ?st2.0 = ?mid and ?st3.0 = ?b and n = 0,
        THEN conjunct2, THEN conjunct2, THEN mp, OF h3]
  have n2: "handle_sio noise_world = Some ?mid" using t3 by blast
  have "run_loop (Suc (Suc 0)) noise_world
        = (case dispatch_command ?f ?b of None \<Rightarrow> None | Some st' \<Rightarrow> run_loop 0 st')"
    using t3 by blast
  then have n4: "run_loop 2 noise_world = Some ?fin"
    unfolding status_dispatch_example by (simp add: numeral_2_eq_2)
  have n5: "map_option sio_tx (run_loop 2 noise_world) = Some [0x41, 0x43, 0x10, 0x00, 0xE0, 0x00, 0xF0]"
    "map_option sio_rx (run_loop 2 noise_world) = Some []"
    unfolding n4 by (simp_all add: boot_fields)
  have c1: "capture_frame partial_frame_world = Some ([0x31, 0x53, 0], status_frame_world example_card)"
    by (simp add: capture_frame_def partial_frame_world_def status_frame_world_def boot_def)
  have c2: "capture_frame glitch_world = Some ([], boot 7 example_card [] [])"
    by (simp add: capture_frame_def glitch_world_def boot_def)
  have c3: "capture_frame bad_checksum_world = Some ([0x31, 0x53, 0, 0, 0x85], boot 7 example_card [] [])"
    by (simp add: capture_frame_def bad_checksum_world_def boot_def)
  have c4: "capture_frame other_device_world = Some ([0x34, 0x53, 0, 0, 0x87], boot 7 example_card [] [])"
    by (simp add: capture_frame_def other_device_world_def boot_def)
  have k3: "spec_checksum [0x31, 0x53, 0, 0] = 0x84" "spec_checksum [0x34, 0x53, 0, 0] = 0x87"
    by (simp_all add: spec_checksum_def spec_carry_def)
  have w1: "handle_sio partial_frame_world = Some (status_frame_world example_card)
      \<and> sio_tx (status_frame_world example_card) = sio_tx partial_frame_world
      \<and> run_loop (Suc 1) partial_frame_world = run_loop 1 (status_frame_world example_card)"
    using malformed_frames_silent [where st = partial_frame_world and command = "[0x31, 0x53, 0]"
        and ?st1.0 = "status_frame_world example_card" and n = 1, THEN conjunct2, THEN conjunct1] c1
    by simp
  have w2: "handle_sio glitch_world = Some (boot 7 example_card [] [])"
    using malformed_frames_silent [where st = glitch_world and command = "[]"
        and ?st1.0 = "boot 7 example_card [] []", THEN conjunct2, THEN conjunct1] c2 by simp
  have w3: "handle_sio bad_checksum_world = Some (boot 7 example_card [] [])"
    using malformed_frames_silent [where st = bad_checksum_world and command = "[0x31, 0x53, 0, 0, 0x85]"
        and ?st1.0 = "boot 7 example_card [] []", THEN conjunct2, THEN conjunct1] c3 k3 by simp
  have w4: "handle_sio other_device_world = Some (boot 7 example_card [] [])"
    using malformed_frames_silent [where st = other_device_world and command = "[0x34, 0x53, 0, 0, 0x87]"
        and ?st1.0 = "boot 7 example_card [] []", THEN conjunct2, THEN conjunct1] c4 k3 by simp
  have tx0: "sio_tx partial_frame_world = []" by (simp add: partial_frame_world_def boot_fields)
  have two: "run_loop 2 partial_frame_world = run_loop 1 (status_frame_world example_card)"
    using w1 by (simp add: numeral_2_eq_2)
  have fin: "map_option sio_tx (run_loop 1 (status_frame_world example_card))
      = Some [0x41, 0x43, 0x10, 0x00, 0xE0, 0x00, 0xF0]"
    by (simp add: status_frame_run status_on_example)
  from n1 n2 n5 c1 c2 c3 c4 w1 w2 w3 w4 tx0 two fin show ?thesis by simp
qed

end
